theory Spec2Isabelle
  imports Main "HOL-Library.Word"
begin

unbundle bit_operations_syntax

section \<open>mackerel-agent: package command (command/command.go)\<close>

text \<open>
  A shallow embedding of the sequential code of \<^verbatim>\<open>command.go\<close>. Each goroutine is a
  function of its own; what the other goroutines, the clock and the remote API do is an
  explicit input of the function that observes it.
\<close>

subsection \<open>Go integers\<close>

text \<open>
  Go's \<^verbatim>\<open>/\<close> and \<^verbatim>\<open>%\<close> on integers truncate towards zero; the remainder has the
  sign of the dividend. Division by zero panics, which the callers below check first.
\<close>

definition go_quot :: "int \<Rightarrow> int \<Rightarrow> int" where
  "go_quot a b = sgn a * sgn b * (\<bar>a\<bar> div \<bar>b\<bar>)"

definition go_rem :: "int \<Rightarrow> int \<Rightarrow> int" where
  "go_rem a b = sgn a * (\<bar>a\<bar> mod \<bar>b\<bar>)"

subsection \<open>Data\<close>

text \<open>
  Modelled from the spec: the struct \<^verbatim>\<open>mackerel.Host\<close> is declared in package mackerel,
  which is not among the sources. The spec's data model gives a host an opaque id and a
  status string; \<^verbatim>\<open>command.go\<close> reads \<^verbatim>\<open>host.ID\<close> and \<^verbatim>\<open>result.Status\<close>.
\<close>

record Host =
  ID :: string
  Status :: string

text \<open>
  Modelled from the spec: \<^verbatim>\<open>checks.Status\<close> and \<^verbatim>\<open>checks.Report\<close> are declared in
  package checks, which is not among the sources. The spec lists the five statuses;
  \<^verbatim>\<open>command.go\<close> names \<^verbatim>\<open>checks.StatusOK\<close> and \<^verbatim>\<open>checks.StatusUndefined\<close> and reads
  \<^verbatim>\<open>report.Status\<close> and \<^verbatim>\<open>report.Message\<close>.
\<close>

datatype Status = StatusOK | StatusWarning | StatusCritical | StatusUnknown | StatusUndefined

record Report =
  checkName :: string
  Status :: Status
  Message :: string
  timestamp :: int

subsection \<open>delayByHost\<close>

text \<open>
  \<^verbatim>\<open>sha1.Sum\<close> is Go's standard library and returns a \<^verbatim>\<open>[20]byte\<close> array: here an array
  is read by index, and the hash function is a parameter of \<open>delayByHost\<close>. The second
  parameter is \<^verbatim>\<open>int(config.PostMetricsInterval.Seconds())\<close>, the base post interval in whole
  seconds: the constant is declared in package config, which is not among the sources.
  The result is \<open>None\<close> where Go panics on the division by zero.
\<close>

type_synonym digest = "nat \<Rightarrow> 8 word"

definition sha1_Size :: nat where
  "sha1_Size = 20"

definition delayByHost :: "(string \<Rightarrow> digest) \<Rightarrow> int \<Rightarrow> Host \<Rightarrow> int option" where
  "delayByHost sha1_Sum interval host =
     (let s = sha1_Sum (ID host)
      in if interval = 0 then None
         else Some (go_rem (uint (s (sha1_Size - 1))) interval))"

subsection \<open>The checker goroutine of runCheckersLoop\<close>

text \<open>
  The state of one checker goroutine, and what it sends: a report on \<^verbatim>\<open>checkReportCh\<close>
  or a signal on \<^verbatim>\<open>reportCheckImmediateCh\<close>.
\<close>

record checkerState =
  lastStatus :: Status
  lastMessage :: string

datatype checkerSend = SendReport Report | SendImmediate

definition initialCheckerState :: checkerState where
  "initialCheckerState = \<lparr>lastStatus = StatusUndefined, lastMessage = ''''\<rparr>"

text \<open>
  The closure given to \<^verbatim>\<open>util.Periodically\<close>, run once. Its input is what
  \<^verbatim>\<open>checker.Check()\<close> returned: an error (\<open>Inl\<close>) or a report.
\<close>

definition checkerTick :: "string + Report \<Rightarrow> checkerState \<Rightarrow> checkerSend list \<times> checkerState" where
  "checkerTick res st =
     (case res of
        Inl err \<Rightarrow> ([], st)
      | Inr report \<Rightarrow>
          if Report.Status report = StatusOK \<and> Report.Status report = lastStatus st
             \<and> Message report = lastMessage st
          then ([], st)
          else (SendReport report #
                (if Report.Status report \<noteq> lastStatus st
                    \<and> \<not> (Report.Status report = StatusOK \<and> lastStatus st = StatusUndefined)
                 then [SendImmediate] else []),
                \<lparr>lastStatus = Report.Status report, lastMessage = Message report\<rparr>))"

text \<open>
  The checker goroutine over the results of its successive invocations, each beginning
  when the one before is over (\<^verbatim>\<open>util.Periodically\<close> is not among the sources): what it
  sends, and what it remembers after them.
\<close>

fun checkerRun :: "(string + Report) list \<Rightarrow> checkerState \<Rightarrow> checkerSend list" where
  "checkerRun [] st = []"
| "checkerRun (res # rest) st =
     (case checkerTick res st of (sends, st') \<Rightarrow> sends @ checkerRun rest st')"

fun checkerStateAfter :: "(string + Report) list \<Rightarrow> checkerState \<Rightarrow> checkerState" where
  "checkerStateAfter [] st = st"
| "checkerStateAfter (res # rest) st =
     (case checkerTick res st of (sends, st') \<Rightarrow> checkerStateAfter rest st')"

subsection \<open>Metric values\<close>

text \<open>
  A \<^verbatim>\<open>float64\<close> is its IEEE 754 bit pattern: one sign bit, eleven exponent bits, 52 bits
  of fraction. \<^verbatim>\<open>math.IsNaN\<close> and \<^verbatim>\<open>math.IsInf\<close> are Go's standard library; on the bit
  pattern, the exponent of a NaN or an infinity is all ones, and the fraction of an
  infinity is zero. \<open>IsInf\<close> is \<^verbatim>\<open>math.IsInf(f, 0)\<close>: an infinity of either sign.
\<close>

type_synonym float64 = "64 word"

definition exponentBits :: "float64 \<Rightarrow> 64 word" where
  "exponentBits f = drop_bit 52 f AND 0x7FF"

definition fractionBits :: "float64 \<Rightarrow> 64 word" where
  "fractionBits f = f AND 0xFFFFFFFFFFFFF"

definition IsNaN :: "float64 \<Rightarrow> bool" where
  "IsNaN f = (exponentBits f = 0x7FF \<and> fractionBits f \<noteq> 0)"

definition IsInf :: "float64 \<Rightarrow> bool" where
  "IsInf f = (exponentBits f = 0x7FF \<and> fractionBits f = 0)"

text \<open>
  \<^verbatim>\<open>mackerel.CreatingMetricsValue\<close>, with the fields \<^verbatim>\<open>enqueueLoop\<close> fills in. The source
  stores the time as \<^verbatim>\<open>float64(result.Created.Unix())\<close>; the model keeps the Unix seconds.
\<close>

record CreatingMetricsValue =
  HostID :: string
  Name :: string
  Time :: int
  Value :: float64

text \<open>
  The field \<^verbatim>\<open>values\<close> is \<open>values'\<close> here: the plain name is a command of Isabelle.
  \<^verbatim>\<open>retryCnt\<close> is a Go \<^verbatim>\<open>int\<close> that starts at 0 and grows by one with each failed post
  of the value; the model counts in unbounded integers.
\<close>

record postValue =
  values' :: "CreatingMetricsValue list"
  retryCnt :: int

definition newPostValue :: "CreatingMetricsValue list \<Rightarrow> postValue" where
  "newPostValue vals = \<lparr>values' = vals, retryCnt = 0\<rparr>"

subsection \<open>Configuration and context\<close>

text \<open>
  The fields of \<^verbatim>\<open>config.Config\<close> that \<^verbatim>\<open>loop\<close>, \<^verbatim>\<open>Run\<close> and \<^verbatim>\<open>prepareHost\<close> read:
  \<^verbatim>\<open>Connection.PostMetricsDequeueDelaySeconds\<close>, \<^verbatim>\<open>Connection.PostMetricsRetryDelaySeconds\<close>,
  \<^verbatim>\<open>Connection.PostMetricsRetryMax\<close>, \<^verbatim>\<open>HostStatus.OnStart\<close> and \<^verbatim>\<open>HostStatus.OnStop\<close>.
\<close>

record Config =
  PostMetricsDequeueDelaySeconds :: int
  PostMetricsRetryDelaySeconds :: int
  PostMetricsRetryMax :: int
  OnStart :: string
  OnStop :: string

record Context =
  Config :: Config
  Host :: Host
  CustomIdentifierHosts :: "string \<rightharpoonup> Host"

subsection \<open>enqueueLoop\<close>

text \<open>
  One entry of \<^verbatim>\<open>result.Values\<close>: a map from metric names to values, here the list of
  its entries in the order the \<^verbatim>\<open>range\<close> loop visits them, and an optional custom
  identifier. \<open>Created\<close> is \<^verbatim>\<open>result.Created.Unix()\<close>.
\<close>

record ValuesCustomIdentifier =
  Values :: "(string \<times> float64) list"
  CustomIdentifier :: "string option"

record MetricsResult =
  Created :: int
  ResultValues :: "ValuesCustomIdentifier list"

text \<open>The inner loop: a NaN or an infinity is logged and skipped.\<close>

fun appendValues :: "string \<Rightarrow> int \<Rightarrow> (string \<times> float64) list \<Rightarrow> CreatingMetricsValue list" where
  "appendValues hostID created [] = []"
| "appendValues hostID created ((name, val) # rest) =
     (if IsNaN val \<or> IsInf val then appendValues hostID created rest
      else \<lparr>HostID = hostID, Name = name, Time = created, Value = val\<rparr>
           # appendValues hostID created rest)"

text \<open>The outer loop: values with a custom identifier that resolves to no host are skipped.\<close>

fun creatingValues :: "Context \<Rightarrow> int \<Rightarrow> ValuesCustomIdentifier list \<Rightarrow> CreatingMetricsValue list" where
  "creatingValues c created [] = []"
| "creatingValues c created (vals # rest) =
     (case CustomIdentifier vals of
        None \<Rightarrow> appendValues (ID (Host c)) created (Values vals) @ creatingValues c created rest
      | Some ci \<Rightarrow>
          (case CustomIdentifierHosts c ci of
             Some host \<Rightarrow> appendValues (ID host) created (Values vals) @ creatingValues c created rest
           | None \<Rightarrow> creatingValues c created rest))"

text \<open>What one pass of \<^verbatim>\<open>enqueueLoop\<close> sends to \<^verbatim>\<open>postQueue\<close> for a result of the agent.\<close>

definition enqueueResult :: "Context \<Rightarrow> MetricsResult \<Rightarrow> postValue" where
  "enqueueResult c result = newPostValue (creatingValues c (Created result) (ResultValues result))"

subsection \<open>The scheduler: loop\<close>

datatype loopState =
  loopStateFirst | loopStateDefault | loopStateQueued | loopStateHadError | loopStateTerminating

datatype error = Errorf string

text \<open>
  What the program does that can be seen from outside, in the order it does it: sleeps,
  receives from and sends to \<^verbatim>\<open>postQueue\<close>, calls of the API (\<^verbatim>\<open>CreateHost\<close> with the
  host name and the custom identifier of its host spec), and the log of an abandoned
  value. What a retry goroutine does (\<open>Requeue\<close>, \<open>Abandon\<close>) is listed where the
  goroutine is started.
\<close>

datatype action =
    Sleep int
  | InitPluginGenerators
  | Dequeue postValue
  | PostMetricsValues "CreatingMetricsValue list"
  | Requeue postValue
  | Abandon postValue
  | UpdateHostStatus string string
  | FindHostByCustomIdentifier string
  | CreateHost string string
  | FindHost string
  | SaveHostID string

record schedState =
  lState :: loopState
  postQueue :: "postValue list"

text \<open>
  \<open>Running\<close>: the loop goes on with this state (for a whole run: it is still waiting in
  its \<^verbatim>\<open>select\<close> when the inputs end). \<open>Returned\<close>: the function returned \<^verbatim>\<open>nil\<close>
  (\<open>None\<close>) or an error. \<open>Panicked\<close>: a run-time panic.
\<close>

datatype outcome = Running schedState | Returned "error option" | Panicked

text \<open>
  What the rest of the program and the clock do during one pass of the \<^verbatim>\<open>for\<close> loop.
  Only \<^verbatim>\<open>enqueueLoop\<close> and the retry goroutines send to \<^verbatim>\<open>postQueue\<close>; the results that
  \<^verbatim>\<open>enqueueLoop\<close> handles between two looks at the queue are inputs, and so is what the
  retry goroutines have sent when a pass begins. The capacity of the channel only makes a
  sender wait, so it decides when a value arrives, not what the loop does with it.
  \<^item> \<open>resent\<close>: the values that retry goroutines of earlier passes have sent to
    \<^verbatim>\<open>postQueue\<close> since the pass before; a send made while a pass runs counts for the next
    pass;
  \<^item> \<open>arrivedBeforeSelect\<close>: results enqueued before the \<^verbatim>\<open>select\<close> at the top fires;
  \<^item> \<open>termSelected\<close>: that \<^verbatim>\<open>select\<close> receives from \<^verbatim>\<open>termMetricsCh\<close>, otherwise from
    \<^verbatim>\<open>postQueue\<close>;
  \<^item> \<open>arrivedBeforeMerge\<close>: results enqueued before \<^verbatim>\<open>len(postQueue) > 0\<close> is tested for
    the merge;
  \<^item> \<open>now\<close>: \<^verbatim>\<open>time.Now().Unix()\<close>;
  \<^item> \<open>arrivedBeforeNextState\<close>: results enqueued before the next state is determined;
  \<^item> \<open>termDuringSleep\<close>: the second \<^verbatim>\<open>select\<close> receives from \<^verbatim>\<open>termMetricsCh\<close> before the
    timer fires;
  \<^item> \<open>arrivedDuringSend\<close>: results enqueued during the sleep and the call of the API;
  \<^item> \<open>postError\<close>: the error of \<^verbatim>\<open>PostMetricsValues\<close>, \<open>None\<close> for \<^verbatim>\<open>nil\<close>.
\<close>

record cycleEnv =
  resent :: "postValue list"
  arrivedBeforeSelect :: "MetricsResult list"
  termSelected :: bool
  arrivedBeforeMerge :: "MetricsResult list"
  now :: int
  arrivedBeforeNextState :: "MetricsResult list"
  termDuringSleep :: bool
  arrivedDuringSend :: "MetricsResult list"
  postError :: "string option"

definition forceReturn :: error where
  "forceReturn = Errorf ''received terminate instruction again. force return''"

text \<open>
  The \<^verbatim>\<open>switch lState\<close> that sets \<^verbatim>\<open>delaySeconds\<close>. The \<^verbatim>\<open>default\<close> branch is the one of
  \<open>loopStateDefault\<close>; its \<^verbatim>\<open>%\<close> panics when the interval is zero.
\<close>

definition delaySecondsFor :: "Config \<Rightarrow> int \<Rightarrow> int \<Rightarrow> int \<Rightarrow> loopState \<Rightarrow> int option" where
  "delaySecondsFor conf postDelaySeconds interval t ls =
     (case ls of
        loopStateFirst \<Rightarrow> Some 0
      | loopStateQueued \<Rightarrow> Some (PostMetricsDequeueDelaySeconds conf)
      | loopStateHadError \<Rightarrow> Some (PostMetricsRetryDelaySeconds conf)
      | loopStateTerminating \<Rightarrow> Some 1
      | loopStateDefault \<Rightarrow>
          if interval = 0 then None
          else (let elapsedSeconds = go_rem t interval
                in if postDelaySeconds > elapsedSeconds
                   then Some (postDelaySeconds - elapsedSeconds) else Some 0))"

text \<open>
  The goroutine started after a failed post. A value over the limit is logged as
  abandoned (\<open>Abandon\<close>), the others are sent to \<^verbatim>\<open>postQueue\<close> (\<open>Requeue\<close>).
\<close>

fun retryFailed :: "int \<Rightarrow> postValue list \<Rightarrow> action list" where
  "retryFailed retryMax [] = []"
| "retryFailed retryMax (v # vs) =
     (let v' = v\<lparr>retryCnt := retryCnt v + 1\<rparr>
      in (if retryCnt v' > retryMax then Abandon v' else Requeue v') # retryFailed retryMax vs)"

text \<open>What a trace holds of each kind, in order.\<close>

fun dequeued :: "action list \<Rightarrow> postValue list" where
  "dequeued [] = []"
| "dequeued (Dequeue v # as) = v # dequeued as"
| "dequeued (a # as) = dequeued as"

fun requeued :: "action list \<Rightarrow> postValue list" where
  "requeued [] = []"
| "requeued (Requeue v # as) = v # requeued as"
| "requeued (a # as) = requeued as"

fun abandoned :: "action list \<Rightarrow> postValue list" where
  "abandoned [] = []"
| "abandoned (Abandon v # as) = v # abandoned as"
| "abandoned (a # as) = abandoned as"

fun posted :: "action list \<Rightarrow> CreatingMetricsValue list list" where
  "posted [] = []"
| "posted (PostMetricsValues vals # as) = vals # posted as"
| "posted (a # as) = posted as"

fun slept :: "action list \<Rightarrow> int list" where
  "slept [] = []"
| "slept (Sleep d # as) = d # slept as"
| "slept (a # as) = slept as"

fun statusUpdates :: "action list \<Rightarrow> (string \<times> string) list" where
  "statusUpdates [] = []"
| "statusUpdates (UpdateHostStatus i s # as) = (i, s) # statusUpdates as"
| "statusUpdates (a # as) = statusUpdates as"

text \<open>
  The branch \<^verbatim>\<open>case v := <-postQueue\<close>, in the order of the source. First the merge:
  \<open>v\<close> has been received and \<open>q\<close> is what the queue holds then; the result is
  \<^verbatim>\<open>origPostValues\<close> and what the queue holds afterwards.
\<close>

definition mergeNext :: "postValue \<Rightarrow> postValue list \<Rightarrow> postValue list \<times> postValue list" where
  "mergeNext v q = (if length q > 0 then ([v, hd q], tl q) else ([v], q))"

text \<open>The next state, determined before sleeping, from what the queue holds then.\<close>

definition nextLoopState :: "loopState \<Rightarrow> postValue list \<Rightarrow> loopState" where
  "nextLoopState ls q =
     (if ls \<noteq> loopStateTerminating
      then (if length q > 0 then loopStateQueued else loopStateDefault)
      else ls)"

text \<open>
  The post and what follows it: \<open>err\<close> is the error of \<^verbatim>\<open>PostMetricsValues\<close>, \<open>ls\<close> the
  state after the sleep and \<open>q\<close> what the queue holds. After a failed post the retry
  goroutine is started and the loop goes on without waiting for it: what the goroutine
  does is listed with the pass that starts it, and the queue is as it was. The values it
  sends reach the queue later (see \<open>pass\<close>).
\<close>

definition postAndRetry ::
  "Context \<Rightarrow> string option \<Rightarrow> loopState \<Rightarrow> postValue list \<Rightarrow> postValue list
     \<Rightarrow> action list \<times> outcome" where
  "postAndRetry c err ls origPostValues q =
     (let postValues = concat (map values' origPostValues)
      in case err of
           Some e \<Rightarrow>
             (let ls' = (if ls \<noteq> loopStateTerminating then loopStateHadError else ls);
                  retries = retryFailed (PostMetricsRetryMax (Config c)) origPostValues
              in (PostMetricsValues postValues # retries,
                  Running \<lparr>lState = ls', postQueue = q\<rparr>))
         | None \<Rightarrow>
             ([PostMetricsValues postValues],
              if ls = loopStateTerminating \<and> length q \<le> 0 then Returned None
              else Running \<lparr>lState = ls, postQueue = q\<rparr>))"

text \<open>
  The sleep: a termination signal during it is an error in the state
  \<open>loopStateTerminating\<close> and sets that state otherwise.
\<close>

definition sleepAndPost ::
  "Context \<Rightarrow> cycleEnv \<Rightarrow> int \<Rightarrow> loopState \<Rightarrow> postValue list \<Rightarrow> postValue list
     \<Rightarrow> action list \<times> outcome" where
  "sleepAndPost c env delaySeconds ls origPostValues q =
     (if termDuringSleep env \<and> ls = loopStateTerminating
      then ([Sleep delaySeconds], Returned (Some forceReturn))
      else (let ls' = (if termDuringSleep env then loopStateTerminating else ls);
                q' = q @ map (enqueueResult c) (arrivedDuringSend env)
            in case postAndRetry c (postError env) ls' origPostValues q' of
                 (acts, r) \<Rightarrow> (Sleep delaySeconds # acts, r)))"

definition sendCycle ::
  "Context \<Rightarrow> int \<Rightarrow> int \<Rightarrow> cycleEnv \<Rightarrow> loopState \<Rightarrow> postValue \<Rightarrow> postValue list
     \<Rightarrow> action list \<times> outcome" where
  "sendCycle c postDelaySeconds interval env ls v rest =
     (case mergeNext v (rest @ map (enqueueResult c) (arrivedBeforeMerge env)) of
        (origPostValues, q) \<Rightarrow>
          (case delaySecondsFor (Config c) postDelaySeconds interval (now env) ls of
             None \<Rightarrow> (map Dequeue origPostValues, Panicked)
           | Some delaySeconds \<Rightarrow>
               (let q' = q @ map (enqueueResult c) (arrivedBeforeNextState env);
                    ls' = nextLoopState ls q'
                in case sleepAndPost c env delaySeconds ls' origPostValues q' of
                     (acts, r) \<Rightarrow> (map Dequeue origPostValues @ acts, r))))"

text \<open>
  One pass of the \<^verbatim>\<open>for\<close> loop. The receive from \<^verbatim>\<open>postQueue\<close> cannot fire on an empty
  queue: the \<^verbatim>\<open>select\<close> keeps waiting, and the state is as before.
\<close>

definition cycle :: "Context \<Rightarrow> int \<Rightarrow> int \<Rightarrow> cycleEnv \<Rightarrow> schedState \<Rightarrow> action list \<times> outcome" where
  "cycle c postDelaySeconds interval env st =
     (let q0 = postQueue st @ map (enqueueResult c) (arrivedBeforeSelect env)
      in if termSelected env
         then (if lState st = loopStateTerminating then ([], Returned (Some forceReturn))
               else if length q0 \<le> 0 then ([], Returned None)
               else ([], Running \<lparr>lState = loopStateTerminating, postQueue = q0\<rparr>))
         else (case q0 of
                 [] \<Rightarrow> ([], Running \<lparr>lState = lState st, postQueue = q0\<rparr>)
               | v # rest \<Rightarrow> sendCycle c postDelaySeconds interval env (lState st) v rest))"

text \<open>
  The values that retry goroutines have yet to send are in flight. Of the values that the
  environment says were sent, those in flight reach the queue, in the order given; a
  value that no retry goroutine holds is ignored. The result is what reaches the queue
  and what stays in flight.
\<close>

fun deliver :: "postValue list \<Rightarrow> postValue list \<Rightarrow> postValue list \<times> postValue list" where
  "deliver [] inFlight = ([], inFlight)"
| "deliver (v # vs) inFlight =
     (if v \<in> set inFlight
      then (case deliver vs (remove1 v inFlight) of (sent, inFlight') \<Rightarrow> (v # sent, inFlight'))
      else deliver vs inFlight)"

text \<open>
  A pass of the loop together with the retry goroutines: what these have sent since the
  pass before is in the queue when the pass begins, and the values that the retry
  goroutine of this pass is to send are in flight after it.
\<close>

definition pass ::
  "Context \<Rightarrow> int \<Rightarrow> int \<Rightarrow> cycleEnv \<Rightarrow> schedState \<Rightarrow> postValue list
     \<Rightarrow> action list \<times> outcome \<times> postValue list" where
  "pass c postDelaySeconds interval env st inFlight =
     (case deliver (resent env) inFlight of
        (sent, inFlight') \<Rightarrow>
          (case cycle c postDelaySeconds interval env (st\<lparr>postQueue := postQueue st @ sent\<rparr>) of
             (acts, r) \<Rightarrow> (acts, r, inFlight' @ requeued acts)))"

text \<open>The \<^verbatim>\<open>for\<close> loop, over what happens in its successive passes.\<close>

fun cyclesFrom ::
  "Context \<Rightarrow> int \<Rightarrow> int \<Rightarrow> cycleEnv list \<Rightarrow> schedState \<Rightarrow> postValue list
     \<Rightarrow> action list \<times> outcome" where
  "cyclesFrom c postDelaySeconds interval [] st inFlight = ([], Running st)"
| "cyclesFrom c postDelaySeconds interval (env # envs) st inFlight =
     (case pass c postDelaySeconds interval env st inFlight of
        (acts, Running st', inFlight') \<Rightarrow>
          (case cyclesFrom c postDelaySeconds interval envs st' inFlight' of
             (acts', r) \<Rightarrow> (acts @ acts', r))
      | (acts, r, inFlight') \<Rightarrow> (acts, r))"

text \<open>When the loop begins, no retry goroutine has been started.\<close>

definition cycles :: "Context \<Rightarrow> int \<Rightarrow> int \<Rightarrow> cycleEnv list \<Rightarrow> schedState \<Rightarrow> action list \<times> outcome" where
  "cycles c postDelaySeconds interval envs st = cyclesFrom c postDelaySeconds interval envs st []"

text \<open>
  \<^verbatim>\<open>loop\<close>: the initial wait of half the host's delay, which a termination signal ends
  with \<^verbatim>\<open>nil\<close>, then the plugin generators, then the \<^verbatim>\<open>for\<close> loop from the state
  \<open>loopStateFirst\<close> and an empty queue.
\<close>

record loopEnv =
  termDuringInitialWait :: bool
  cycleEnvs :: "cycleEnv list"

definition loop :: "(string \<Rightarrow> digest) \<Rightarrow> int \<Rightarrow> Context \<Rightarrow> loopEnv \<Rightarrow> action list \<times> outcome" where
  "loop sha1_Sum interval c env =
     (case delayByHost sha1_Sum interval (Host c) of
        None \<Rightarrow> ([], Panicked)
      | Some postDelaySeconds \<Rightarrow>
          (let initialDelay = go_quot postDelaySeconds 2
           in if termDuringInitialWait env then ([Sleep initialDelay], Returned None)
              else (case cycles c postDelaySeconds interval (cycleEnvs env)
                           \<lparr>lState = loopStateFirst, postQueue = []\<rparr> of
                      (acts, r) \<Rightarrow> (Sleep initialDelay # InitPluginGenerators # acts, r))))"

text \<open>
  \<^verbatim>\<open>Run\<close>: the status on stop is set when \<^verbatim>\<open>loop\<close> returned \<^verbatim>\<open>nil\<close> and a status is
  configured; an error of that call is logged only.
\<close>

definition Run :: "(string \<Rightarrow> digest) \<Rightarrow> int \<Rightarrow> Context \<Rightarrow> loopEnv \<Rightarrow> action list \<times> outcome" where
  "Run sha1_Sum interval c env =
     (case loop sha1_Sum interval c env of
        (acts, Returned None) \<Rightarrow>
          (if OnStop (Config c) \<noteq> ''''
           then (acts @ [UpdateHostStatus (ID (Host c)) (OnStop (Config c))], Returned None)
           else (acts, Returned None))
      | (acts, r) \<Rightarrow> (acts, r))"

subsection \<open>The delay of the state Default, in the words of the spec\<close>

text \<open>
  Following the spec, not the source: the remaining seconds, at the time \<open>t\<close>, until the
  clock is next at the offset within the base interval.
\<close>

definition secondsUntilOffset :: "int \<Rightarrow> int \<Rightarrow> int \<Rightarrow> int" where
  "secondsUntilOffset interval offset t = (offset - t) mod interval"

subsection \<open>prepareHost\<close>

text \<open>
  Modelled from the spec: the type \<^verbatim>\<open>mackerel.Error\<close> and its method
  \<^verbatim>\<open>IsClientError\<close> are declared in package mackerel, which is not among the sources. The
  spec sorts the errors of a remote call into client errors (authentication and
  validation failures) and transient errors (network and server side).
\<close>

datatype apiError = ClientError string | TransientError string

fun errorString :: "apiError \<Rightarrow> string" where
  "errorString (ClientError msg) = msg"
| "errorString (TransientError msg) = msg"

definition filterErrorForRetry :: "apiError option \<Rightarrow> apiError option" where
  "filterErrorForRetry err =
     (case err of
        Some (ClientError msg) \<Rightarrow> None
      | _ \<Rightarrow> err)"

text \<open>
  Modelled from the spec: \<^verbatim>\<open>retry.Retry\<close> is the package github.com/Songmu/retry, which is
  not among the sources. The spec describes a bounded retry policy with a fixed attempt
  count and a fixed spacing: the function is called up to \<open>n\<close> times, with a sleep of
  the interval between two calls, and no more once it has returned \<^verbatim>\<open>nil\<close>. The function
  \<open>f\<close> is a closure over variables of the caller: it gets the number \<open>k\<close> of calls made
  before and the variables, and gives what it does, the variables and its error.
\<close>

fun Retry ::
  "nat \<Rightarrow> int \<Rightarrow> (nat \<Rightarrow> 's \<Rightarrow> action list \<times> 's \<times> apiError option) \<Rightarrow> nat \<Rightarrow> 's
     \<Rightarrow> action list \<times> 's" where
  "Retry 0 interval f k s = ([], s)"
| "Retry (Suc n) interval f k s =
     (case f k s of
        (acts, s', err) \<Rightarrow>
          if err = None \<or> n = 0 then (acts, s')
          else (case Retry n interval f (Suc k) s' of
                  (acts', s'') \<Rightarrow> (acts @ Sleep interval # acts', s'')))"

definition retryNum :: nat where
  "retryNum = 20"

definition retryInterval :: int where
  "retryInterval = 3"

definition doRetry ::
  "(nat \<Rightarrow> 's \<Rightarrow> action list \<times> 's \<times> apiError option) \<Rightarrow> 's \<Rightarrow> action list \<times> 's" where
  "doRetry f s = Retry retryNum retryInterval f 0 s"

text \<open>The variables of \<^verbatim>\<open>prepareHost\<close> that its closures assign.\<close>

record prepareVars =
  result :: "Host option"
  hostID :: string
  lastErr :: "apiError option"

text \<open>
  What \<^verbatim>\<open>prepareHost\<close> gets from outside: the result of \<^verbatim>\<open>collectHostSpecs\<close> (an error,
  or the host name and the custom identifier; the meta data and the interfaces are only
  passed on), of \<^verbatim>\<open>conf.LoadHostID\<close>, of the successive calls of each operation of the
  API, of \<^verbatim>\<open>conf.SaveHostID\<close>, and the file of the host id storage when it is a
  \<^verbatim>\<open>FileSystemHostIDStorage\<close>.
\<close>

record prepareEnv =
  collectHostSpecsResult :: "string + string \<times> string"
  LoadHostIDResult :: "string + string"
  FindHostByCustomIdentifierResults :: "nat \<Rightarrow> apiError + Host"
  CreateHostResults :: "nat \<Rightarrow> apiError + string"
  FindHostResults :: "nat \<Rightarrow> apiError + Host"
  UpdateHostStatusResults :: "nat \<Rightarrow> apiError + unit"
  SaveHostIDResult :: "string option"
  HostIDFile :: "string option"

text \<open>
  The four closures given to \<^verbatim>\<open>retry.Retry\<close> have one shape: call the API, assign what
  it returned to the variables, return the filtered error. A call that fails returns its
  error and no value (\<^verbatim>\<open>nil\<close>, or the empty string for a host id).
\<close>

definition retried ::
  "action \<Rightarrow> (nat \<Rightarrow> apiError + 'a) \<Rightarrow> ('a option \<Rightarrow> prepareVars \<Rightarrow> prepareVars)
     \<Rightarrow> nat \<Rightarrow> prepareVars \<Rightarrow> action list \<times> prepareVars \<times> apiError option" where
  "retried call results assign k vars =
     (case results k of
        Inl e \<Rightarrow> ([call], (assign None vars)\<lparr>lastErr := Some e\<rparr>, filterErrorForRetry (Some e))
      | Inr x \<Rightarrow> ([call], (assign (Some x) vars)\<lparr>lastErr := None\<rparr>, filterErrorForRetry None))"

definition callFindHostByCustomIdentifier ::
  "prepareEnv \<Rightarrow> string \<Rightarrow> nat \<Rightarrow> prepareVars \<Rightarrow> action list \<times> prepareVars \<times> apiError option" where
  "callFindHostByCustomIdentifier env customIdentifier =
     retried (FindHostByCustomIdentifier customIdentifier) (FindHostByCustomIdentifierResults env)
       (\<lambda>x vars. vars\<lparr>result := x\<rparr>)"

definition callCreateHost ::
  "prepareEnv \<Rightarrow> string \<Rightarrow> string \<Rightarrow> nat \<Rightarrow> prepareVars \<Rightarrow> action list \<times> prepareVars \<times> apiError option" where
  "callCreateHost env hostname customIdentifier =
     retried (CreateHost hostname customIdentifier) (CreateHostResults env)
       (\<lambda>x vars. vars\<lparr>hostID := (case x of Some i \<Rightarrow> i | None \<Rightarrow> '''')\<rparr>)"

definition callFindHost ::
  "prepareEnv \<Rightarrow> string \<Rightarrow> nat \<Rightarrow> prepareVars \<Rightarrow> action list \<times> prepareVars \<times> apiError option" where
  "callFindHost env hid =
     retried (FindHost hid) (FindHostResults env) (\<lambda>x vars. vars\<lparr>result := x\<rparr>)"

definition callUpdateHostStatus ::
  "prepareEnv \<Rightarrow> string \<Rightarrow> string \<Rightarrow> nat \<Rightarrow> prepareVars \<Rightarrow> action list \<times> prepareVars \<times> apiError option" where
  "callUpdateHostStatus env hid hostSt =
     retried (UpdateHostStatus hid hostSt) (UpdateHostStatusResults env) (\<lambda>x vars. vars)"

text \<open>
  The \<^verbatim>\<open>if\<close> on \<^verbatim>\<open>conf.LoadHostID()\<close>: create the host, or check the loaded host id. The
  result is what was done, the variables, and the error returned there, if any.
\<close>

definition findByCustomIdentifier :: "prepareEnv \<Rightarrow> string \<Rightarrow> prepareVars \<Rightarrow> action list \<times> prepareVars" where
  "findByCustomIdentifier env customIdentifier vars =
     (if customIdentifier \<noteq> ''''
      then (case Retry 3 2 (callFindHostByCustomIdentifier env customIdentifier) 0 vars of
              (acts, vars') \<Rightarrow>
                (acts, (case result vars' of
                          Some h \<Rightarrow> vars'\<lparr>hostID := ID h\<rparr>
                        | None \<Rightarrow> vars')))
      else ([], vars))"

definition createHost ::
  "prepareEnv \<Rightarrow> string \<Rightarrow> string \<Rightarrow> prepareVars \<Rightarrow> action list \<times> prepareVars \<times> error option" where
  "createHost env hostname customIdentifier vars =
     (case doRetry (callCreateHost env hostname customIdentifier) vars of
        (acts, vars') \<Rightarrow>
          (case lastErr vars' of
             Some e \<Rightarrow>
               (acts, vars', Some (Errorf (''Failed to register this host: '' @ errorString e)))
           | None \<Rightarrow>
               (case doRetry (callFindHost env (hostID vars')) vars' of
                  (acts', vars'') \<Rightarrow>
                    (acts @ acts', vars'',
                     case lastErr vars'' of
                       Some e \<Rightarrow>
                         Some (Errorf (''Failed to find this host on mackerel: '' @ errorString e))
                     | None \<Rightarrow> None))))"

definition checkHostID :: "prepareEnv \<Rightarrow> string \<Rightarrow> prepareVars \<Rightarrow> action list \<times> prepareVars \<times> error option" where
  "checkHostID env hid vars =
     (case doRetry (callFindHost env hid) (vars\<lparr>hostID := hid\<rparr>) of
        (acts, vars') \<Rightarrow>
          (acts, vars',
           case lastErr vars' of
             Some e \<Rightarrow>
               (case HostIDFile env of
                  Some file \<Rightarrow>
                    Some (Errorf (''Failed to find this host on mackerel (You may want to delete file ''
                                  @ [CHR 0x22] @ file @ [CHR 0x22]
                                  @ '' to register this host to an another organization): ''
                                  @ errorString e))
                | None \<Rightarrow> Some (Errorf (''Failed to find this host on mackerel: '' @ errorString e)))
           | None \<Rightarrow> None))"

definition registerOrCheck ::
  "prepareEnv \<Rightarrow> string \<Rightarrow> string \<Rightarrow> action list \<times> prepareVars \<times> error option" where
  "registerOrCheck env hostname customIdentifier =
     (let vars = \<lparr>result = None, hostID = '''', lastErr = None\<rparr>
      in case LoadHostIDResult env of
           Inl err \<Rightarrow>
             (case findByCustomIdentifier env customIdentifier vars of
                (acts, vars') \<Rightarrow>
                  (case result vars' of
                     Some h \<Rightarrow> (acts, vars', None)
                   | None \<Rightarrow>
                       (case createHost env hostname customIdentifier vars' of
                          (acts', r) \<Rightarrow> (acts @ acts', r))))
         | Inr hid \<Rightarrow> checkHostID env hid vars)"

text \<open>The status on start, then the host id is saved.\<close>

definition setStatusOnStart :: "Config \<Rightarrow> prepareEnv \<Rightarrow> Host \<Rightarrow> action list \<times> error option" where
  "setStatusOnStart conf env h =
     (let hostSt = OnStart conf
      in if hostSt \<noteq> '''' \<and> hostSt \<noteq> Host.Status h
         then (case doRetry (callUpdateHostStatus env (ID h) hostSt)
                      \<lparr>result = Some h, hostID = ID h, lastErr = None\<rparr> of
                 (acts, vars) \<Rightarrow>
                   (acts,
                    case lastErr vars of
                      Some e \<Rightarrow>
                        Some (Errorf (''Failed to set default host status: '' @ hostSt @ '', ''
                                      @ errorString e))
                    | None \<Rightarrow> None))
         else ([], None))"

text \<open>
  \<open>Prepared\<close>: a host and \<^verbatim>\<open>nil\<close>; \<open>Failed\<close>: \<^verbatim>\<open>nil\<close> and an error; \<open>NilDereference\<close>:
  the panic of reading a field of \<^verbatim>\<open>result\<close> when it is \<^verbatim>\<open>nil\<close>.
\<close>

datatype prepared = Prepared Host | Failed error | NilDereference

definition prepareHost :: "Config \<Rightarrow> prepareEnv \<Rightarrow> action list \<times> prepared" where
  "prepareHost conf env =
     (case collectHostSpecsResult env of
        Inl e \<Rightarrow> ([], Failed (Errorf (''error while collecting host specs: '' @ e)))
      | Inr (hostname, customIdentifier) \<Rightarrow>
          (case registerOrCheck env hostname customIdentifier of
             (acts, vars, Some err) \<Rightarrow> (acts, Failed err)
           | (acts, vars, None) \<Rightarrow>
               (case result vars of
                  None \<Rightarrow> (acts, NilDereference)
                | Some h \<Rightarrow>
                    (case setStatusOnStart conf env h of
                       (acts', Some err) \<Rightarrow> (acts @ acts', Failed err)
                     | (acts', None) \<Rightarrow>
                         (acts @ acts' @ [SaveHostID (ID h)],
                          case SaveHostIDResult env of
                            Some e \<Rightarrow> Failed (Errorf (''Failed to save host ID: '' @ e))
                          | None \<Rightarrow> Prepared h)))))"

text \<open>What a retried call does when it is made \<open>a\<close> times: the calls, and a sleep between two.\<close>

fun retryTrace :: "int \<Rightarrow> action \<Rightarrow> nat \<Rightarrow> action list" where
  "retryTrace iv call 0 = []"
| "retryTrace iv call (Suc a) = call # concat (replicate a [Sleep iv, call])"

text \<open>
  The bounded retry policy, in the words of the spec, on the results of the successive
  calls of one operation, counted from 0: \<open>n\<close> calls were made, which is no more than the
  attempt count; every call but the last failed with a transient error; and the calls
  ended before the attempt count only when the last call did not fail with a transient
  error (it succeeded, or failed with a client error). No call at all is within the policy.
\<close>

fun isTransientError :: "apiError + 'a \<Rightarrow> bool" where
  "isTransientError (Inl (TransientError msg)) = True"
| "isTransientError res = False"

definition retryPolicy :: "nat \<Rightarrow> (nat \<Rightarrow> apiError + 'a) \<Rightarrow> nat \<Rightarrow> bool" where
  "retryPolicy attemptCount results n \<longleftrightarrow>
     n \<le> attemptCount
     \<and> list_all (\<lambda>k. isTransientError (results k)) [0..<n - 1]
     \<and> (n = 0 \<or> n = attemptCount \<or> \<not> isTransientError (results (n - 1)))"

subsection \<open>Finite values\<close>

text \<open>
  A metric value that is neither a NaN nor an infinity, and a queue whose post values hold
  only such values: the invariant of \<^verbatim>\<open>postQueue\<close>.
\<close>

definition finiteValue :: "CreatingMetricsValue \<Rightarrow> bool" where
  "finiteValue m = (\<not> IsNaN (Value m) \<and> \<not> IsInf (Value m))"

definition finiteQueue :: "postValue list \<Rightarrow> bool" where
  "finiteQueue q = list_all (\<lambda>v. list_all finiteValue (values' v)) q"

subsection \<open>Example inputs\<close>

text \<open>
  A host, a configuration that allows one retry, and a stand-in for the hash function
  whose digest ends in the byte \<open>0x9d\<close>, so that the delay of the host is
  \<open>157 mod 60 = 37\<close> seconds.
\<close>

definition exampleHost :: Host where
  "exampleHost = \<lparr>ID = ''abc'', Host.Status = ''working''\<rparr>"

definition exampleConfig :: Config where
  "exampleConfig =
     \<lparr>PostMetricsDequeueDelaySeconds = 30, PostMetricsRetryDelaySeconds = 60,
      PostMetricsRetryMax = 1, OnStart = ''working'', OnStop = ''poweroff''\<rparr>"

definition exampleContext :: Context where
  "exampleContext =
     \<lparr>Config = exampleConfig, Host = exampleHost, CustomIdentifierHosts = Map.empty\<rparr>"

definition exampleDigest :: "string \<Rightarrow> digest" where
  "exampleDigest b i = (if i = 19 then 0x9d else 0)"

text \<open>
  A result of the agent with the values 1.0, a NaN, plus infinity and minus infinity, and
  the post value that \<^verbatim>\<open>enqueueLoop\<close> makes of it.
\<close>

definition exampleResult :: MetricsResult where
  "exampleResult =
     \<lparr>Created = 1500000000,
      ResultValues =
        [\<lparr>Values = [(''loadavg5'', 0x3FF0000000000000), (''cpu.user'', 0x7FF8000000000000),
                    (''cpu.idle'', 0x7FF0000000000000), (''cpu.system'', 0xFFF0000000000000)],
          CustomIdentifier = None\<rparr>]\<rparr>"

definition examplePostValue :: postValue where
  "examplePostValue =
     \<lparr>values' = [\<lparr>HostID = ''abc'', Name = ''loadavg5'', Time = 1500000000,
                   Value = 0x3FF0000000000000\<rparr>],
      retryCnt = 0\<rparr>"

text \<open>
  A pass of the loop in which nothing arrives, no signal comes and the post succeeds, at
  second 30 of the minute.
\<close>

definition quietEnv :: cycleEnv where
  "quietEnv =
     \<lparr>resent = [], arrivedBeforeSelect = [], termSelected = False, arrivedBeforeMerge = [],
      now = 30, arrivedBeforeNextState = [], termDuringSleep = False, arrivedDuringSend = [],
      postError = None\<rparr>"

text \<open>
  A start with no saved host id and a custom identifier: the lookup by custom identifier
  fails every time, the host is created, and found.
\<close>

definition lookupFailsEnv :: prepareEnv where
  "lookupFailsEnv =
     \<lparr>collectHostSpecsResult = Inr (''web1'', ''ci-1''),
      LoadHostIDResult = Inl ''open id: no such file or directory'',
      FindHostByCustomIdentifierResults = (\<lambda>k. Inl (TransientError ''timeout'')),
      CreateHostResults = (\<lambda>k. Inr ''abc''),
      FindHostResults = (\<lambda>k. Inr exampleHost),
      UpdateHostStatusResults = (\<lambda>k. Inr ()),
      SaveHostIDResult = None,
      HostIDFile = Some ''/var/lib/mackerel-agent/id''\<rparr>"

text \<open>A start with a saved host id that the server does not answer for.\<close>

definition serverDownEnv :: prepareEnv where
  "serverDownEnv =
     \<lparr>collectHostSpecsResult = Inr (''web1'', ''''),
      LoadHostIDResult = Inr ''abc'',
      FindHostByCustomIdentifierResults = (\<lambda>k. Inl (TransientError ''timeout'')),
      CreateHostResults = (\<lambda>k. Inl (TransientError ''timeout'')),
      FindHostResults = (\<lambda>k. Inl (TransientError ''timeout'')),
      UpdateHostStatusResults = (\<lambda>k. Inl (TransientError ''timeout'')),
      SaveHostIDResult = None,
      HostIDFile = None\<rparr>"

section \<open>Properties\<close>

subsection \<open>Delay assignment\<close>

lemma go_rem_nonneg: "0 \<le> a \<Longrightarrow> go_rem a b = a mod \<bar>b\<bar>"
  by (cases "a = 0") (simp_all add: go_rem_def)

lemma go_quot_nonneg_two: "0 \<le> a \<Longrightarrow> go_quot a 2 = a div 2"
  by (cases "a = 0") (simp_all add: go_quot_def)

lemma delayByHost_Some:
  assumes "delayByHost sha1_Sum interval host = Some d"
  shows "interval \<noteq> 0 \<and> d = uint (sha1_Sum (ID host) (sha1_Size - 1)) mod \<bar>interval\<bar>"
  using assms by (simp add: delayByHost_def Let_def go_rem_nonneg split: if_splits)

lemma delayByHost_nonneg: "delayByHost sha1_Sum interval host = Some d \<Longrightarrow> 0 \<le> d"
  by (drule delayByHost_Some) simp

lemma delayByHost_range:
  assumes "delayByHost sha1_Sum interval host = Some d" and "0 < interval"
  shows "0 \<le> d \<and> d < interval"
  using delayByHost_Some [OF assms(1)] assms(2) by simp

text \<open>
  C6. \<open>delayByHost\<close> reads nothing of the host but its identifier, so two hosts with the
  same identifier get the same delay, whatever their other fields; and for a positive
  base interval the call returns a delay \<open>d\<close> with \<open>0 \<le> d < interval\<close>.
\<close>

theorem delayByHost_deterministic_in_range:
  assumes "0 < interval" and "ID h1 = ID h2"
  shows "\<exists>d. delayByHost sha1_Sum interval h1 = Some d
             \<and> delayByHost sha1_Sum interval h2 = Some d
             \<and> 0 \<le> d \<and> d < interval"
proof -
  obtain d where d: "delayByHost sha1_Sum interval h1 = Some d"
    using assms(1) by (simp add: delayByHost_def Let_def)
  moreover have "delayByHost sha1_Sum interval h2 = delayByHost sha1_Sum interval h1"
    using assms(2) by (simp add: delayByHost_def)
  moreover have "0 \<le> d \<and> d < interval"
    using d assms(1) by (rule delayByHost_range)
  ultimately show ?thesis by simp
qed

theorem delayByHost_deterministic_in_range_witness:
  "(0::int) < 60
   \<and> ID exampleHost = ID (exampleHost\<lparr>Host.Status := ''standby''\<rparr>)
   \<and> delayByHost exampleDigest 60 exampleHost = Some 37
   \<and> delayByHost exampleDigest 60 (exampleHost\<lparr>Host.Status := ''standby''\<rparr>) = Some 37"
  using delayByHost_deterministic_in_range
          [of 60 exampleHost "exampleHost\<lparr>Host.Status := ''standby''\<rparr>" exampleDigest]
  by (simp add: delayByHost_def go_rem_def sha1_Size_def exampleDigest_def exampleHost_def)

subsection \<open>Checker runner\<close>

lemma checkerRun_append:
  "checkerRun (rs @ rs') st = checkerRun rs st @ checkerRun rs' (checkerStateAfter rs st)"
  by (induction rs arbitrary: st) (simp_all add: case_prod_beta)

lemma checkerStateAfter_append:
  "checkerStateAfter (rs @ rs') st = checkerStateAfter rs' (checkerStateAfter rs st)"
  by (induction rs arbitrary: st) (simp_all add: case_prod_beta)

text \<open>
  C5. Whatever the invocations \<open>rs\<close> before it, a successful invocation adds to what the
  goroutine has sent: the report, unless its status is OK, equals the remembered status,
  and its message equals the remembered message; then the immediate signal, exactly when
  the status differs from the remembered one and the change is not from Undefined to OK;
  and nothing else. What is remembered after it are the status and the message of this
  report, whether it was sent or withheld. An invocation that fails sends nothing and
  leaves what is remembered as it was, and before the first invocation the status
  Undefined and the empty message are remembered.
\<close>

theorem checker_forward_and_escalate:
  "checkerRun (rs @ [Inr report]) st0 =
     checkerRun rs st0
       @ (if Report.Status report = StatusOK
             \<and> Report.Status report = lastStatus (checkerStateAfter rs st0)
             \<and> Message report = lastMessage (checkerStateAfter rs st0)
          then [] else [SendReport report])
       @ (if Report.Status report \<noteq> lastStatus (checkerStateAfter rs st0)
             \<and> \<not> (lastStatus (checkerStateAfter rs st0) = StatusUndefined
                    \<and> Report.Status report = StatusOK)
          then [SendImmediate] else [])
   \<and> checkerStateAfter (rs @ [Inr report]) st0
       = \<lparr>lastStatus = Report.Status report, lastMessage = Message report\<rparr>
   \<and> checkerRun (rs @ [Inl err]) st0 = checkerRun rs st0
   \<and> checkerStateAfter (rs @ [Inl err]) st0 = checkerStateAfter rs st0
   \<and> checkerStateAfter [] initialCheckerState
       = \<lparr>lastStatus = StatusUndefined, lastMessage = ''''\<rparr>"
  by (simp add: checkerRun_append checkerStateAfter_append checkerTick_def initialCheckerState_def)

theorem checker_forward_and_escalate_witness:
  "checkerRun
     [Inr \<lparr>checkName = ''disk'', Report.Status = StatusOK, Message = ''all good'', timestamp = 1\<rparr>,
      Inl ''timeout'',
      Inr \<lparr>checkName = ''disk'', Report.Status = StatusOK, Message = ''all good'', timestamp = 2\<rparr>]
     initialCheckerState
   = [SendReport \<lparr>checkName = ''disk'', Report.Status = StatusOK, Message = ''all good'', timestamp = 1\<rparr>]
   \<and> checkerStateAfter
       [Inr \<lparr>checkName = ''disk'', Report.Status = StatusOK, Message = ''all good'', timestamp = 1\<rparr>,
        Inl ''timeout'']
       initialCheckerState
     = \<lparr>lastStatus = StatusOK, lastMessage = ''all good''\<rparr>
   \<and> checkerRun
     [Inr \<lparr>checkName = ''disk'', Report.Status = StatusOK, Message = ''all good'', timestamp = 1\<rparr>,
      Inl ''timeout'',
      Inr \<lparr>checkName = ''disk'', Report.Status = StatusCritical, Message = ''full'', timestamp = 2\<rparr>]
     initialCheckerState
   = [SendReport \<lparr>checkName = ''disk'', Report.Status = StatusOK, Message = ''all good'', timestamp = 1\<rparr>,
      SendReport \<lparr>checkName = ''disk'', Report.Status = StatusCritical, Message = ''full'', timestamp = 2\<rparr>,
      SendImmediate]"
proof -
  let ?ok = "\<lparr>checkName = ''disk'', Report.Status = StatusOK, Message = ''all good'', timestamp = 1\<rparr>"
  have before: "checkerRun [Inr ?ok, Inl ''timeout''] initialCheckerState = [SendReport ?ok]"
    and remembered: "checkerStateAfter [Inr ?ok, Inl ''timeout''] initialCheckerState
       = \<lparr>lastStatus = StatusOK, lastMessage = ''all good''\<rparr>"
    by (simp_all add: checkerTick_def initialCheckerState_def)
  from checker_forward_and_escalate
         [of "[Inr ?ok, Inl ''timeout'']"
             "\<lparr>checkName = ''disk'', Report.Status = StatusOK, Message = ''all good'', timestamp = 2\<rparr>"
             initialCheckerState]
       checker_forward_and_escalate
         [of "[Inr ?ok, Inl ''timeout'']"
             "\<lparr>checkName = ''disk'', Report.Status = StatusCritical, Message = ''full'', timestamp = 2\<rparr>"
             initialCheckerState]
  show ?thesis
    unfolding before remembered by simp
qed

text \<open>
  The same report twice in a row is forwarded once, the first OK report does not
  escalate, and the change from OK to Critical does.
\<close>

lemma checkerRun_example:
  "checkerRun
     [Inr \<lparr>checkName = ''disk'', Report.Status = StatusOK, Message = ''all good'', timestamp = 1\<rparr>,
      Inr \<lparr>checkName = ''disk'', Report.Status = StatusOK, Message = ''all good'', timestamp = 2\<rparr>,
      Inr \<lparr>checkName = ''disk'', Report.Status = StatusCritical, Message = ''full'', timestamp = 3\<rparr>]
     initialCheckerState
   = [SendReport \<lparr>checkName = ''disk'', Report.Status = StatusOK, Message = ''all good'', timestamp = 1\<rparr>,
      SendReport \<lparr>checkName = ''disk'', Report.Status = StatusCritical, Message = ''full'', timestamp = 3\<rparr>,
      SendImmediate]"
  by (simp add: checkerTick_def initialCheckerState_def)

subsection \<open>Traces\<close>

lemma dequeued_append: "dequeued (xs @ ys) = dequeued xs @ dequeued ys"
  by (induction xs rule: dequeued.induct) simp_all

lemma requeued_append: "requeued (xs @ ys) = requeued xs @ requeued ys"
  by (induction xs rule: requeued.induct) simp_all

lemma abandoned_append: "abandoned (xs @ ys) = abandoned xs @ abandoned ys"
  by (induction xs rule: abandoned.induct) simp_all

lemma posted_append: "posted (xs @ ys) = posted xs @ posted ys"
  by (induction xs rule: posted.induct) simp_all

lemma slept_append: "slept (xs @ ys) = slept xs @ slept ys"
  by (induction xs rule: slept.induct) simp_all

lemma statusUpdates_append: "statusUpdates (xs @ ys) = statusUpdates xs @ statusUpdates ys"
  by (induction xs rule: statusUpdates.induct) simp_all

lemma trace_map_Dequeue:
  "dequeued (map Dequeue vs) = vs"
  "requeued (map Dequeue vs) = []"
  "abandoned (map Dequeue vs) = []"
  "posted (map Dequeue vs) = []"
  "slept (map Dequeue vs) = []"
  "statusUpdates (map Dequeue vs) = []"
  by (induction vs) simp_all

lemma requeued_retryFailed:
  "requeued (retryFailed m vs)
     = map (\<lambda>v. v\<lparr>retryCnt := retryCnt v + 1\<rparr>) (filter (\<lambda>v. \<not> retryCnt v + 1 > m) vs)"
  by (induction vs) (simp_all add: Let_def)

lemma abandoned_retryFailed:
  "abandoned (retryFailed m vs)
     = map (\<lambda>v. v\<lparr>retryCnt := retryCnt v + 1\<rparr>) (filter (\<lambda>v. retryCnt v + 1 > m) vs)"
  by (induction vs) (simp_all add: Let_def)

lemma trace_retryFailed:
  "dequeued (retryFailed m vs) = []"
  "posted (retryFailed m vs) = []"
  "slept (retryFailed m vs) = []"
  "statusUpdates (retryFailed m vs) = []"
  by (induction vs) (simp_all add: Let_def)

lemmas trace_simps =
  dequeued_append requeued_append abandoned_append posted_append slept_append
  statusUpdates_append trace_map_Dequeue trace_retryFailed

subsection \<open>One pass of the loop\<close>

lemma mergeNext_eq: "mergeNext v q = (take 2 (v # q), drop 1 q)"
  by (cases q) (simp_all add: mergeNext_def)

lemma trace_postAndRetry:
  "dequeued (fst (postAndRetry c err ls ovs q)) = []"
  "posted (fst (postAndRetry c err ls ovs q)) = [concat (map values' ovs)]"
  "slept (fst (postAndRetry c err ls ovs q)) = []"
  "statusUpdates (fst (postAndRetry c err ls ovs q)) = []"
  by (simp_all add: postAndRetry_def Let_def trace_simps split: option.split)

lemma trace_sleepAndPost:
  "dequeued (fst (sleepAndPost c env d ls ovs q)) = []"
  "posted (fst (sleepAndPost c env d ls ovs q)) = []
     \<or> posted (fst (sleepAndPost c env d ls ovs q)) = [concat (map values' ovs)]"
  "slept (fst (sleepAndPost c env d ls ovs q)) = [d]"
  "statusUpdates (fst (sleepAndPost c env d ls ovs q)) = []"
  by (simp_all add: sleepAndPost_def Let_def trace_postAndRetry case_prod_beta)

lemma dequeued_sendCycle:
  "dequeued (fst (sendCycle c pd iv env ls v rest))
     = v # take 1 (rest @ map (enqueueResult c) (arrivedBeforeMerge env))"
  by (simp add: sendCycle_def mergeNext_eq trace_simps trace_sleepAndPost Let_def case_prod_beta
      split: option.split)

lemma statusUpdates_sendCycle: "statusUpdates (fst (sendCycle c pd iv env ls v rest)) = []"
  by (simp add: sendCycle_def trace_simps trace_sleepAndPost Let_def case_prod_beta
      split: option.split)

lemma slept_sendCycle:
  "delaySecondsFor (Config c) pd iv (now env) ls = Some d
     \<Longrightarrow> slept (fst (sendCycle c pd iv env ls v rest)) = [d]"
  by (simp add: sendCycle_def trace_simps trace_sleepAndPost Let_def case_prod_beta)

lemma posted_sendCycle:
  "posted (fst (sendCycle c pd iv env ls v rest)) = []
   \<or> posted (fst (sendCycle c pd iv env ls v rest))
       = [concat (map values' (dequeued (fst (sendCycle c pd iv env ls v rest))))]"
proof -
  obtain ovs q where mn: "mergeNext v (rest @ map (enqueueResult c) (arrivedBeforeMerge env)) = (ovs, q)"
    by force
  show ?thesis
  proof (cases "delaySecondsFor (Config c) pd iv (now env) ls")
    case None
    then show ?thesis by (simp add: sendCycle_def mn trace_simps)
  next
    case (Some d)
    let ?q = "q @ map (enqueueResult c) (arrivedBeforeNextState env)"
    have "posted (fst (sleepAndPost c env d (nextLoopState ls ?q) ovs ?q)) = []
        \<or> posted (fst (sleepAndPost c env d (nextLoopState ls ?q) ovs ?q)) = [concat (map values' ovs)]"
      by (rule trace_sleepAndPost)
    then show ?thesis
      by (simp add: sendCycle_def mn Some trace_simps trace_sleepAndPost Let_def case_prod_beta)
  qed
qed

lemma cycle_term: "termSelected env \<Longrightarrow> fst (cycle c pd iv env st) = []"
  by (simp add: cycle_def Let_def)

lemma cycle_blocked:
  "\<not> termSelected env \<Longrightarrow> postQueue st @ map (enqueueResult c) (arrivedBeforeSelect env) = []
     \<Longrightarrow> fst (cycle c pd iv env st) = []"
  by (simp add: cycle_def Let_def)

lemma cycle_recv:
  "\<not> termSelected env
     \<Longrightarrow> postQueue st @ map (enqueueResult c) (arrivedBeforeSelect env) = v # rest
     \<Longrightarrow> cycle c pd iv env st = sendCycle c pd iv env (lState st) v rest"
  by (simp add: cycle_def Let_def)

text \<open>
  C2. In every pass of the loop at most two post values are received from the queue. When
  the \<^verbatim>\<open>select\<close> receives \<open>v\<close> from the queue, the values received are \<open>v\<close> and, if the
  queue holds anything at the moment of the test, its first element and no more, however
  long the queue is; a pass that receives the termination signal receives no value. What
  is posted, if anything, is one request with the metrics of the values received.
\<close>

theorem cycle_merges_at_most_two:
  assumes "cycle c pd iv env st = (acts, r)"
  shows "length (dequeued acts) \<le> 2
       \<and> (termSelected env \<longrightarrow> dequeued acts = [])
       \<and> (\<not> termSelected env
            \<and> postQueue st @ map (enqueueResult c) (arrivedBeforeSelect env) = v # rest
          \<longrightarrow> dequeued acts = v # take 1 (rest @ map (enqueueResult c) (arrivedBeforeMerge env)))
       \<and> (posted acts = [] \<or> posted acts = [concat (map values' (dequeued acts))])"
proof -
  have acts: "acts = fst (cycle c pd iv env st)"
    using assms by simp
  let ?q0 = "postQueue st @ map (enqueueResult c) (arrivedBeforeSelect env)"
  show ?thesis
  proof (cases "termSelected env")
    case True
    then show ?thesis by (simp add: acts cycle_term)
  next
    case False
    show ?thesis
    proof (cases ?q0)
      case Nil
      with False show ?thesis by (simp add: acts cycle_blocked)
    next
      case (Cons w ws)
      have eq: "cycle c pd iv env st = sendCycle c pd iv env (lState st) w ws"
        using False Cons by (rule cycle_recv)
      have "posted (fst (sendCycle c pd iv env (lState st) w ws)) = []
          \<or> posted (fst (sendCycle c pd iv env (lState st) w ws))
              = [concat (map values' (dequeued (fst (sendCycle c pd iv env (lState st) w ws))))]"
        by (rule posted_sendCycle)
      moreover have "length (dequeued (fst (sendCycle c pd iv env (lState st) w ws))) \<le> 2"
        by (simp add: dequeued_sendCycle)
      moreover have "?q0 = v # rest \<longrightarrow>
          dequeued (fst (sendCycle c pd iv env (lState st) w ws))
            = v # take 1 (rest @ map (enqueueResult c) (arrivedBeforeMerge env))"
        using Cons by (simp add: dequeued_sendCycle)
      ultimately show ?thesis
        using False by (simp add: acts eq)
    qed
  qed
qed

lemmas example_defs =
  exampleContext_def exampleConfig_def exampleHost_def examplePostValue_def quietEnv_def
  exampleResult_def exampleDigest_def

lemmas cycle_defs =
  cycles_def pass_def cycle_def sendCycle_def mergeNext_def nextLoopState_def sleepAndPost_def
  postAndRetry_def delaySecondsFor_def go_rem_def forceReturn_def Let_def

theorem cycle_merges_at_most_two_witness:
  "cycle exampleContext 37 60 quietEnv
     \<lparr>lState = loopStateFirst,
      postQueue = [examplePostValue, examplePostValue\<lparr>retryCnt := 1\<rparr>, examplePostValue\<lparr>retryCnt := 2\<rparr>]\<rparr>
   = ([Dequeue examplePostValue, Dequeue (examplePostValue\<lparr>retryCnt := 1\<rparr>), Sleep 0,
       PostMetricsValues (values' examplePostValue @ values' examplePostValue)],
      Running \<lparr>lState = loopStateQueued, postQueue = [examplePostValue\<lparr>retryCnt := 2\<rparr>]\<rparr>)
   \<and> \<not> termSelected quietEnv
   \<and> length (dequeued [Dequeue examplePostValue, Dequeue (examplePostValue\<lparr>retryCnt := 1\<rparr>), Sleep 0,
       PostMetricsValues (values' examplePostValue @ values' examplePostValue)]) = 2"
proof -
  have run: "cycle exampleContext 37 60 quietEnv
     \<lparr>lState = loopStateFirst,
      postQueue = [examplePostValue, examplePostValue\<lparr>retryCnt := 1\<rparr>, examplePostValue\<lparr>retryCnt := 2\<rparr>]\<rparr>
   = ([Dequeue examplePostValue, Dequeue (examplePostValue\<lparr>retryCnt := 1\<rparr>), Sleep 0,
       PostMetricsValues (values' examplePostValue @ values' examplePostValue)],
      Running \<lparr>lState = loopStateQueued, postQueue = [examplePostValue\<lparr>retryCnt := 2\<rparr>]\<rparr>)"
    by (simp add: cycle_defs example_defs)
  from cycle_merges_at_most_two [OF run, of examplePostValue
         "[examplePostValue\<lparr>retryCnt := 1\<rparr>, examplePostValue\<lparr>retryCnt := 2\<rparr>]"] run
  show ?thesis
    by (simp add: quietEnv_def)
qed

subsection \<open>A failed post\<close>

lemma postAndRetry_failed:
  "postAndRetry c (Some e) ls ovs q =
     (PostMetricsValues (concat (map values' ovs)) # retryFailed (PostMetricsRetryMax (Config c)) ovs,
      Running \<lparr>lState = (if ls \<noteq> loopStateTerminating then loopStateHadError else ls),
               postQueue = q\<rparr>)"
  by (simp add: postAndRetry_def Let_def)

lemma sleepAndPost_failed:
  assumes "postError env = Some e" and "posted (fst (sleepAndPost c env d ls ovs q)) \<noteq> []"
  shows "\<exists>ls'. sleepAndPost c env d ls ovs q =
     (Sleep d # PostMetricsValues (concat (map values' ovs))
        # retryFailed (PostMetricsRetryMax (Config c)) ovs,
      Running \<lparr>lState = ls',
               postQueue = q @ map (enqueueResult c) (arrivedDuringSend env)\<rparr>)"
proof (cases "termDuringSleep env \<and> ls = loopStateTerminating")
  case True
  with assms(2) show ?thesis by (simp add: sleepAndPost_def)
next
  case False
  then show ?thesis
    by (simp add: sleepAndPost_def assms(1) postAndRetry_failed Let_def)
qed

lemma sendCycle_failed:
  assumes "postError env = Some e" and "posted (fst (sendCycle c pd iv env ls v rest)) \<noteq> []"
    and "mergeNext v (rest @ map (enqueueResult c) (arrivedBeforeMerge env)) = (ovs, q)"
  shows "\<exists>d ls'. sendCycle c pd iv env ls v rest =
     (map Dequeue ovs @ Sleep d # PostMetricsValues (concat (map values' ovs))
        # retryFailed (PostMetricsRetryMax (Config c)) ovs,
      Running \<lparr>lState = ls',
               postQueue = q @ map (enqueueResult c) (arrivedBeforeNextState env)
                             @ map (enqueueResult c) (arrivedDuringSend env)\<rparr>)"
proof (cases "delaySecondsFor (Config c) pd iv (now env) ls")
  case None
  with assms(2,3) show ?thesis by (simp add: sendCycle_def trace_simps)
next
  case (Some d)
  let ?q = "q @ map (enqueueResult c) (arrivedBeforeNextState env)"
  have eq: "sendCycle c pd iv env ls v rest =
      (map Dequeue ovs @ fst (sleepAndPost c env d (nextLoopState ls ?q) ovs ?q),
       snd (sleepAndPost c env d (nextLoopState ls ?q) ovs ?q))"
    by (simp add: sendCycle_def assms(3) Some Let_def case_prod_beta)
  have "posted (fst (sleepAndPost c env d (nextLoopState ls ?q) ovs ?q)) \<noteq> []"
    using assms(2) by (simp add: eq trace_simps)
  from sleepAndPost_failed [OF assms(1) this] obtain ls' where
    "sleepAndPost c env d (nextLoopState ls ?q) ovs ?q =
     (Sleep d # PostMetricsValues (concat (map values' ovs))
        # retryFailed (PostMetricsRetryMax (Config c)) ovs,
      Running \<lparr>lState = ls',
               postQueue = ?q @ map (enqueueResult c) (arrivedDuringSend env)\<rparr>)"
    by blast
  then show ?thesis by (simp add: eq)
qed

lemma drop_merged: "drop (length (take 2 (v # q))) (v # q @ xs) = drop 1 q @ xs"
  by (cases q) simp_all

text \<open>
  The pass itself: after a failed post the loop goes on, and the queue holds what was not
  received of what it held and of what arrived during the pass.
\<close>

lemma cycle_failed:
  assumes run: "cycle c pd iv env st = (acts, r)"
    and attempted: "posted acts \<noteq> []"
    and failed: "postError env = Some err"
  shows "\<exists>st'. r = Running st'
      \<and> postQueue st' =
          drop (length (dequeued acts))
            (postQueue st @ map (enqueueResult c)
               (arrivedBeforeSelect env @ arrivedBeforeMerge env @ arrivedBeforeNextState env
                  @ arrivedDuringSend env))
      \<and> requeued acts =
          map (\<lambda>v. v\<lparr>retryCnt := retryCnt v + 1\<rparr>)
              (filter (\<lambda>v. \<not> retryCnt v + 1 > PostMetricsRetryMax (Config c)) (dequeued acts))
      \<and> abandoned acts =
          map (\<lambda>v. v\<lparr>retryCnt := retryCnt v + 1\<rparr>)
              (filter (\<lambda>v. retryCnt v + 1 > PostMetricsRetryMax (Config c)) (dequeued acts))"
proof -
  let ?q0 = "postQueue st @ map (enqueueResult c) (arrivedBeforeSelect env)"
  have acts: "acts = fst (cycle c pd iv env st)" and r: "r = snd (cycle c pd iv env st)"
    using run by simp_all
  have nt: "\<not> termSelected env"
    using attempted by (auto simp: acts cycle_term)
  obtain v rest where q0: "?q0 = v # rest"
    using attempted nt by (cases ?q0) (auto simp: acts cycle_blocked)
  have eq: "cycle c pd iv env st = sendCycle c pd iv env (lState st) v rest"
    using nt q0 by (rule cycle_recv)
  let ?q1 = "rest @ map (enqueueResult c) (arrivedBeforeMerge env)"
  let ?ovs = "take 2 (v # ?q1)"
  let ?m = "PostMetricsRetryMax (Config c)"
  let ?later = "map (enqueueResult c) (arrivedBeforeNextState env)
                  @ map (enqueueResult c) (arrivedDuringSend env)"
  have att: "posted (fst (sendCycle c pd iv env (lState st) v rest)) \<noteq> []"
    using attempted by (simp add: acts eq)
  from sendCycle_failed [OF failed att mergeNext_eq] obtain d ls' where sc:
    "sendCycle c pd iv env (lState st) v rest =
       (map Dequeue ?ovs @ Sleep d # PostMetricsValues (concat (map values' ?ovs))
          # retryFailed ?m ?ovs,
        Running \<lparr>lState = ls', postQueue = drop 1 ?q1 @ ?later\<rparr>)"
    by blast
  have deq: "dequeued acts = ?ovs"
    unfolding acts eq sc by (simp only: fst_conv trace_simps dequeued.simps append_Nil2)
  have ab: "abandoned acts = abandoned (retryFailed ?m ?ovs)"
    unfolding acts eq sc by (simp only: fst_conv trace_simps abandoned.simps append_Nil)
  have rq: "requeued acts = requeued (retryFailed ?m ?ovs)"
    unfolding acts eq sc by (simp only: fst_conv trace_simps requeued.simps append_Nil)
  have full: "postQueue st @ map (enqueueResult c)
               (arrivedBeforeSelect env @ arrivedBeforeMerge env @ arrivedBeforeNextState env
                  @ arrivedDuringSend env)
            = v # ?q1 @ ?later"
    using q0 by simp
  have kept: "drop (length (dequeued acts))
            (postQueue st @ map (enqueueResult c)
               (arrivedBeforeSelect env @ arrivedBeforeMerge env @ arrivedBeforeNextState env
                  @ arrivedDuringSend env))
        = drop 1 ?q1 @ ?later"
    unfolding deq full by (rule drop_merged)
  have "r = Running \<lparr>lState = ls', postQueue = drop 1 ?q1 @ ?later\<rparr>"
    unfolding r eq sc by simp
  then show ?thesis
    unfolding kept ab rq unfolding deq
    by (simp only: requeued_retryFailed abandoned_retryFailed schedState.simps outcome.simps
          simp_thms ex_simps)
qed

subsection \<open>The sends of the retry goroutines\<close>

lemma deliver_none: "deliver vs [] = ([], [])"
  by (induction vs) simp_all

lemma deliver_appended: "fst (deliver vs (inFlight @ vs)) = vs"
proof (induction vs arbitrary: inFlight)
  case Nil
  show ?case by simp
next
  case (Cons v vs)
  show ?case
  proof (cases "v \<in> set inFlight")
    case True
    from Cons.IH [of "remove1 v inFlight @ [v]"] True show ?thesis
      by (simp add: remove1_append case_prod_beta)
  next
    case False
    from Cons.IH [of inFlight] False show ?thesis
      by (simp add: remove1_append case_prod_beta)
  qed
qed

lemma pass_eq:
  "pass c pd iv env st inFlight =
     (fst (cycle c pd iv env (st\<lparr>postQueue := postQueue st @ fst (deliver (resent env) inFlight)\<rparr>)),
      snd (cycle c pd iv env (st\<lparr>postQueue := postQueue st @ fst (deliver (resent env) inFlight)\<rparr>)),
      snd (deliver (resent env) inFlight)
        @ requeued (fst (cycle c pd iv env
                           (st\<lparr>postQueue := postQueue st @ fst (deliver (resent env) inFlight)\<rparr>))))"
  by (simp add: pass_def case_prod_beta)

lemma cycles_Cons:
  "cycles c pd iv (env # envs) st =
     (case snd (cycle c pd iv env st) of
        Running st' \<Rightarrow>
          (fst (cycle c pd iv env st)
             @ fst (cyclesFrom c pd iv envs st' (requeued (fst (cycle c pd iv env st)))),
           snd (cyclesFrom c pd iv envs st' (requeued (fst (cycle c pd iv env st)))))
      | r \<Rightarrow> (fst (cycle c pd iv env st), r))"
  by (simp add: cycles_def pass_eq deliver_none case_prod_beta split: outcome.split)

text \<open>
  C1. In a pass of the loop whose post fails, the retry goroutine increases the
  \<open>retryCnt\<close> of every post value received in the pass by exactly one. Those whose count
  then exceeds \<open>PostMetricsRetryMax\<close> are exactly the abandoned ones, and they are not
  sent; the others are exactly the ones the goroutine sends to the queue, in the order
  they were received. The loop goes on without waiting for the sends: the values to send
  are in flight after the pass, behind those that earlier retry goroutines have not sent
  yet, and each reaches the queue once it is sent.
\<close>

theorem failed_post_retries_or_abandons:
  assumes run: "pass c pd iv env st inFlight = (acts, r, inFlight')"
    and attempted: "posted acts \<noteq> []"
    and failed: "postError env = Some err"
  shows "requeued acts =
          map (\<lambda>v. v\<lparr>retryCnt := retryCnt v + 1\<rparr>)
              (filter (\<lambda>v. \<not> retryCnt v + 1 > PostMetricsRetryMax (Config c)) (dequeued acts))
      \<and> abandoned acts =
          map (\<lambda>v. v\<lparr>retryCnt := retryCnt v + 1\<rparr>)
              (filter (\<lambda>v. retryCnt v + 1 > PostMetricsRetryMax (Config c)) (dequeued acts))
      \<and> (\<exists>st'. r = Running st')
      \<and> inFlight' = snd (deliver (resent env) inFlight) @ requeued acts
      \<and> fst (deliver (requeued acts) inFlight') = requeued acts"
proof -
  let ?st = "st\<lparr>postQueue := postQueue st @ fst (deliver (resent env) inFlight)\<rparr>"
  have cyc: "cycle c pd iv env ?st = (acts, r)"
    and fl: "inFlight' = snd (deliver (resent env) inFlight) @ requeued acts"
    using run by (auto simp: pass_eq)
  from cycle_failed [OF cyc attempted failed] obtain st' where
    "r = Running st'"
    "postQueue st' = drop (length (dequeued acts))
       (postQueue ?st @ map (enqueueResult c)
          (arrivedBeforeSelect env @ arrivedBeforeMerge env @ arrivedBeforeNextState env
             @ arrivedDuringSend env))"
    "requeued acts = map (\<lambda>v. v\<lparr>retryCnt := retryCnt v + 1\<rparr>)
       (filter (\<lambda>v. \<not> retryCnt v + 1 > PostMetricsRetryMax (Config c)) (dequeued acts))"
    "abandoned acts = map (\<lambda>v. v\<lparr>retryCnt := retryCnt v + 1\<rparr>)
       (filter (\<lambda>v. retryCnt v + 1 > PostMetricsRetryMax (Config c)) (dequeued acts))"
    by blast
  moreover have "fst (deliver (requeued acts) inFlight') = requeued acts"
    unfolding fl by (rule deliver_appended)
  ultimately show ?thesis
    using fl by blast
qed

theorem failed_post_retries_or_abandons_witness:
  "pass exampleContext 37 60 (quietEnv\<lparr>postError := Some ''503''\<rparr>)
     \<lparr>lState = loopStateDefault, postQueue = [examplePostValue, examplePostValue\<lparr>retryCnt := 1\<rparr>]\<rparr>
     []
   = ([Dequeue examplePostValue, Dequeue (examplePostValue\<lparr>retryCnt := 1\<rparr>), Sleep 7,
       PostMetricsValues (values' examplePostValue @ values' examplePostValue),
       Requeue (examplePostValue\<lparr>retryCnt := 1\<rparr>), Abandon (examplePostValue\<lparr>retryCnt := 2\<rparr>)],
      Running \<lparr>lState = loopStateHadError, postQueue = []\<rparr>,
      [examplePostValue\<lparr>retryCnt := 1\<rparr>])
   \<and> postError (quietEnv\<lparr>postError := Some ''503''\<rparr>) = Some ''503''
   \<and> requeued [Dequeue examplePostValue, Dequeue (examplePostValue\<lparr>retryCnt := 1\<rparr>), Sleep 7,
       PostMetricsValues (values' examplePostValue @ values' examplePostValue),
       Requeue (examplePostValue\<lparr>retryCnt := 1\<rparr>), Abandon (examplePostValue\<lparr>retryCnt := 2\<rparr>)]
      = [examplePostValue\<lparr>retryCnt := 1\<rparr>]
   \<and> abandoned [Dequeue examplePostValue, Dequeue (examplePostValue\<lparr>retryCnt := 1\<rparr>), Sleep 7,
       PostMetricsValues (values' examplePostValue @ values' examplePostValue),
       Requeue (examplePostValue\<lparr>retryCnt := 1\<rparr>), Abandon (examplePostValue\<lparr>retryCnt := 2\<rparr>)]
      = [examplePostValue\<lparr>retryCnt := 2\<rparr>]"
proof -
  let ?acts = "[Dequeue examplePostValue, Dequeue (examplePostValue\<lparr>retryCnt := 1\<rparr>), Sleep 7,
       PostMetricsValues (values' examplePostValue @ values' examplePostValue),
       Requeue (examplePostValue\<lparr>retryCnt := 1\<rparr>), Abandon (examplePostValue\<lparr>retryCnt := 2\<rparr>)]"
  have run: "pass exampleContext 37 60 (quietEnv\<lparr>postError := Some ''503''\<rparr>)
     \<lparr>lState = loopStateDefault, postQueue = [examplePostValue, examplePostValue\<lparr>retryCnt := 1\<rparr>]\<rparr>
     []
   = (?acts, Running \<lparr>lState = loopStateHadError, postQueue = []\<rparr>,
      [examplePostValue\<lparr>retryCnt := 1\<rparr>])"
    by (simp add: cycle_defs example_defs)
  have attempted: "posted ?acts \<noteq> []" by simp
  have failed: "postError (quietEnv\<lparr>postError := Some ''503''\<rparr>) = Some ''503''" by simp
  from failed_post_retries_or_abandons [OF run attempted failed] run failed
  show ?thesis
    by simp
qed

text \<open>
  A post value \<open>A\<close> whose post fails, while the agent's next result arrives: when the retry
  goroutine has not sent \<open>A\<close> again before the next pass, that pass posts the new value
  alone, after the delay of the state \<open>loopStateHadError\<close>, and \<open>A\<close> is posted by the pass
  after its send.
\<close>

lemma retry_example:
  "cycles exampleContext 37 60
     [quietEnv\<lparr>postError := Some ''503''\<rparr>,
      quietEnv\<lparr>arrivedBeforeSelect := [exampleResult\<lparr>Created := 90\<rparr>]\<rparr>,
      quietEnv\<lparr>resent := [examplePostValue\<lparr>retryCnt := 1\<rparr>]\<rparr>]
     \<lparr>lState = loopStateDefault, postQueue = [examplePostValue]\<rparr>
   = ([Dequeue examplePostValue, Sleep 7, PostMetricsValues (values' examplePostValue),
       Requeue (examplePostValue\<lparr>retryCnt := 1\<rparr>),
       Dequeue (enqueueResult exampleContext (exampleResult\<lparr>Created := 90\<rparr>)), Sleep 60,
       PostMetricsValues (values' (enqueueResult exampleContext (exampleResult\<lparr>Created := 90\<rparr>))),
       Dequeue (examplePostValue\<lparr>retryCnt := 1\<rparr>), Sleep 7,
       PostMetricsValues (values' examplePostValue)],
      Running \<lparr>lState = loopStateDefault, postQueue = []\<rparr>)"
  by (simp add: cycle_defs example_defs enqueueResult_def newPostValue_def
        IsNaN_def IsInf_def exponentBits_def fractionBits_def)

subsection \<open>A second termination signal\<close>

lemma cycle_second_termination:
  assumes "lState st = loopStateTerminating"
    and "termSelected env
         \<or> (postQueue st @ map (enqueueResult c) (arrivedBeforeSelect env) \<noteq> []
            \<and> termDuringSleep env)"
  shows "\<exists>acts. cycle c pd iv env st = (acts, Returned (Some forceReturn)) \<and> posted acts = []"
proof (cases "termSelected env")
  case True
  then show ?thesis using assms(1) by (simp add: cycle_def Let_def)
next
  case False
  with assms(2) obtain v rest where
    q0: "postQueue st @ map (enqueueResult c) (arrivedBeforeSelect env) = v # rest"
    and tds: "termDuringSleep env"
    by (cases "postQueue st @ map (enqueueResult c) (arrivedBeforeSelect env)") auto
  have eq: "cycle c pd iv env st = sendCycle c pd iv env loopStateTerminating v rest"
    using cycle_recv [OF False q0] assms(1) by simp
  obtain ovs q where mn: "mergeNext v (rest @ map (enqueueResult c) (arrivedBeforeMerge env)) = (ovs, q)"
    by force
  have "sendCycle c pd iv env loopStateTerminating v rest
          = (map Dequeue ovs @ [Sleep 1], Returned (Some forceReturn))"
    by (simp add: sendCycle_def mn delaySecondsFor_def nextLoopState_def sleepAndPost_def tds)
  then show ?thesis
    by (simp add: eq trace_simps)
qed

text \<open>
  C3. In the state \<open>loopStateTerminating\<close>, a pass of the loop that receives the
  termination signal, at the \<^verbatim>\<open>select\<close> at the top or during the sleep before the post,
  makes the loop return the error of the forced return, whatever would come next, and
  without posting. The error is not the \<^verbatim>\<open>nil\<close> of a completed drain. It is so at the
  start and in the middle of a run, whatever the retry goroutines have in flight.
\<close>

theorem second_termination_forces_return:
  assumes "lState st = loopStateTerminating"
    and "termSelected env
         \<or> (postQueue st @ map (enqueueResult c) (arrivedBeforeSelect env) \<noteq> []
            \<and> termDuringSleep env)"
  shows "\<exists>acts. cycles c pd iv (env # envs) st = (acts, Returned (Some forceReturn))
           \<and> posted acts = []
           \<and> Returned (Some forceReturn) \<noteq> Returned None
           \<and> (\<forall>inFlight. \<exists>acts'.
                 cyclesFrom c pd iv (env # envs) st inFlight = (acts', Returned (Some forceReturn))
                 \<and> posted acts' = [])"
proof -
  have "\<exists>acts'. cyclesFrom c pd iv (env # envs) st inFlight = (acts', Returned (Some forceReturn))
          \<and> posted acts' = []" for inFlight
  proof -
    let ?st = "st\<lparr>postQueue := postQueue st @ fst (deliver (resent env) inFlight)\<rparr>"
    have "lState ?st = loopStateTerminating"
      using assms(1) by simp
    moreover have "termSelected env
         \<or> (postQueue ?st @ map (enqueueResult c) (arrivedBeforeSelect env) \<noteq> []
            \<and> termDuringSleep env)"
      using assms(2) by auto
    ultimately obtain acts' where
      "cycle c pd iv env ?st = (acts', Returned (Some forceReturn))" and "posted acts' = []"
      using cycle_second_termination by blast
    then show ?thesis
      by (simp add: pass_eq)
  qed
  moreover from this [of "[]"] have
    "\<exists>acts. cycles c pd iv (env # envs) st = (acts, Returned (Some forceReturn))
       \<and> posted acts = []"
    unfolding cycles_def .
  ultimately show ?thesis
    by auto
qed

theorem second_termination_forces_return_witness:
  "lState \<lparr>lState = loopStateTerminating, postQueue = [examplePostValue]\<rparr> = loopStateTerminating
   \<and> termSelected (quietEnv\<lparr>termSelected := True\<rparr>)
   \<and> cycles exampleContext 37 60 [quietEnv\<lparr>termSelected := True\<rparr>, quietEnv]
        \<lparr>lState = loopStateTerminating, postQueue = [examplePostValue]\<rparr>
      = ([], Returned (Some forceReturn))
   \<and> termDuringSleep (quietEnv\<lparr>termDuringSleep := True\<rparr>)
   \<and> cycles exampleContext 37 60 [quietEnv\<lparr>termDuringSleep := True\<rparr>, quietEnv]
        \<lparr>lState = loopStateTerminating, postQueue = [examplePostValue]\<rparr>
      = ([Dequeue examplePostValue, Sleep 1], Returned (Some forceReturn))"
proof -
  have st: "lState \<lparr>lState = loopStateTerminating, postQueue = [examplePostValue]\<rparr> = loopStateTerminating"
    by simp
  have top: "termSelected (quietEnv\<lparr>termSelected := True\<rparr>)
      \<or> (postQueue \<lparr>lState = loopStateTerminating, postQueue = [examplePostValue]\<rparr>
            @ map (enqueueResult exampleContext) (arrivedBeforeSelect (quietEnv\<lparr>termSelected := True\<rparr>)) \<noteq> []
         \<and> termDuringSleep (quietEnv\<lparr>termSelected := True\<rparr>))"
    by simp
  have sleeping: "termSelected (quietEnv\<lparr>termDuringSleep := True\<rparr>)
      \<or> (postQueue \<lparr>lState = loopStateTerminating, postQueue = [examplePostValue]\<rparr>
            @ map (enqueueResult exampleContext) (arrivedBeforeSelect (quietEnv\<lparr>termDuringSleep := True\<rparr>)) \<noteq> []
         \<and> termDuringSleep (quietEnv\<lparr>termDuringSleep := True\<rparr>))"
    by simp
  from second_termination_forces_return [OF st top, of 37 60 "[quietEnv]"]
       second_termination_forces_return [OF st sleeping, of 37 60 "[quietEnv]"]
  show ?thesis
    by (simp add: cycle_defs quietEnv_def)
qed

subsection \<open>The delay in the state Default\<close>

text \<open>
  C4, as the claim states it, fails: at second 30 of the interval of 60 seconds, for a host
  whose offset is 10, the offset is next reached after 40 seconds, and the loop does not
  wait at all.
\<close>

theorem default_delay_counterexample:
  "delaySecondsFor exampleConfig 10 60 30 loopStateDefault = Some 0
   \<and> secondsUntilOffset 60 10 30 = 40
   \<and> delaySecondsFor exampleConfig 10 60 30 loopStateDefault \<noteq> Some (secondsUntilOffset 60 10 30)"
  by (simp add: delaySecondsFor_def go_rem_def secondsUntilOffset_def)

text \<open>
  C4, amended. In the state \<open>loopStateDefault\<close>, for a positive base interval, a time not
  before the epoch and the delay \<open>pd\<close> of the host: when the position of the clock within
  the interval is before \<open>pd\<close>, the delay before the post is the remaining seconds until
  the clock is at \<open>pd\<close>; when the position is at \<open>pd\<close> or past it, the delay is 0. It is
  the time the pass of the loop sleeps before it posts.
\<close>

theorem default_delay_until_offset_or_zero:
  assumes "0 < interval" and "0 \<le> now env"
    and "delayByHost sha1_Sum interval (Host c) = Some pd"
  shows "delaySecondsFor (Config c) pd interval (now env) loopStateDefault
           = Some (if now env mod interval < pd then secondsUntilOffset interval pd (now env) else 0)
       \<and> slept (fst (sendCycle c pd interval env loopStateDefault v rest))
           = [if now env mod interval < pd then secondsUntilOffset interval pd (now env) else 0]"
proof -
  let ?t = "now env"
  have pd: "0 \<le> pd \<and> pd < interval" using assms(3,1) by (rule delayByHost_range)
  have el: "go_rem ?t interval = ?t mod interval" using assms by (simp add: go_rem_nonneg)
  have e: "0 \<le> ?t mod interval" using assms(1) by simp
  have "(pd - ?t) mod interval = pd - ?t mod interval" if lt: "?t mod interval < pd"
  proof -
    have "(pd - ?t) mod interval = (pd - ?t mod interval) mod interval"
      by (simp add: mod_diff_right_eq)
    also have "\<dots> = pd - ?t mod interval"
      using lt pd e by (intro mod_pos_pos_trivial) auto
    finally show ?thesis .
  qed
  then have d: "delaySecondsFor (Config c) pd interval ?t loopStateDefault
           = Some (if ?t mod interval < pd then secondsUntilOffset interval pd ?t else 0)"
    using assms(1) by (simp add: delaySecondsFor_def el secondsUntilOffset_def Let_def)
  from slept_sendCycle [OF d] d show ?thesis by simp
qed

theorem default_delay_until_offset_or_zero_witness:
  "(0::int) < 60 \<and> 0 \<le> now quietEnv
   \<and> delayByHost exampleDigest 60 (Host exampleContext) = Some 37
   \<and> delaySecondsFor (Config exampleContext) 37 60 (now quietEnv) loopStateDefault = Some 7
   \<and> secondsUntilOffset 60 37 (now quietEnv) = 7
   \<and> delaySecondsFor (Config exampleContext) 37 60 (now (quietEnv\<lparr>now := 50\<rparr>)) loopStateDefault = Some 0"
proof -
  have d: "delayByHost exampleDigest 60 (Host exampleContext) = Some 37"
    by (simp add: delayByHost_def go_rem_def sha1_Size_def example_defs)
  have t: "0 \<le> now quietEnv" and t': "0 \<le> now (quietEnv\<lparr>now := 50\<rparr>)"
    by (simp_all add: quietEnv_def)
  have i: "(0::int) < 60" by simp
  from default_delay_until_offset_or_zero [OF i t d] default_delay_until_offset_or_zero [OF i t' d] d
  show ?thesis
    by (simp add: quietEnv_def secondsUntilOffset_def)
qed

subsection \<open>Values that are not finite\<close>

lemma appendValues_finite: "list_all finiteValue (appendValues h t xs)"
  by (induction h t xs rule: appendValues.induct) (simp_all add: finiteValue_def)

lemma creatingValues_finite: "list_all finiteValue (creatingValues c t xs)"
  by (induction xs) (simp_all add: appendValues_finite split: option.split)

lemma enqueueResult_finite: "list_all finiteValue (values' (enqueueResult c r))"
  by (simp add: enqueueResult_def newPostValue_def creatingValues_finite)

lemma finiteQueue_arrivals: "finiteQueue (map (enqueueResult c) rs)"
  by (induction rs) (simp_all add: finiteQueue_def enqueueResult_finite)

lemma finiteQueue_append: "finiteQueue (xs @ ys) \<longleftrightarrow> finiteQueue xs \<and> finiteQueue ys"
  by (simp add: finiteQueue_def)

lemma finiteQueue_take: "finiteQueue xs \<Longrightarrow> finiteQueue (take n xs)"
  unfolding finiteQueue_def list_all_iff by (auto dest: in_set_takeD)

lemma finiteQueue_drop: "finiteQueue xs \<Longrightarrow> finiteQueue (drop n xs)"
  unfolding finiteQueue_def list_all_iff by (auto dest: in_set_dropD)

lemma finiteQueue_requeued: "finiteQueue vs \<Longrightarrow> finiteQueue (requeued (retryFailed m vs))"
  by (induction vs) (simp_all add: finiteQueue_def Let_def)

lemma finiteQueue_concat: "finiteQueue vs \<Longrightarrow> list_all finiteValue (concat (map values' vs))"
  by (induction vs) (simp_all add: finiteQueue_def)

lemma mergeNext_finite:
  assumes "finiteQueue (v # q)"
  shows "finiteQueue (fst (mergeNext v q)) \<and> finiteQueue (snd (mergeNext v q))"
  using finiteQueue_take [OF assms, of 2] finiteQueue_drop [OF assms, of 2]
  by (simp add: mergeNext_eq)

lemma postAndRetry_finite:
  assumes "finiteQueue ovs" and "finiteQueue q"
  shows "list_all (list_all finiteValue) (posted (fst (postAndRetry c err ls ovs q)))"
    and "snd (postAndRetry c err ls ovs q) = Running st' \<Longrightarrow> finiteQueue (postQueue st')"
    and "finiteQueue (requeued (fst (postAndRetry c err ls ovs q)))"
  using assms finiteQueue_requeued [OF assms(1), of "PostMetricsRetryMax (Config c)"]
        finiteQueue_concat [OF assms(1)]
  by (auto simp: postAndRetry_def Let_def trace_retryFailed finiteQueue_def
           split: option.splits if_splits)

lemma sleepAndPost_finite:
  assumes "finiteQueue ovs" and "finiteQueue q"
  shows "list_all (list_all finiteValue) (posted (fst (sleepAndPost c env d ls ovs q)))"
    and "snd (sleepAndPost c env d ls ovs q) = Running st' \<Longrightarrow> finiteQueue (postQueue st')"
    and "finiteQueue (requeued (fst (sleepAndPost c env d ls ovs q)))"
proof -
  have q': "finiteQueue (q @ map (enqueueResult c) (arrivedDuringSend env))"
    using assms(2) by (simp add: finiteQueue_append finiteQueue_arrivals)
  show "list_all (list_all finiteValue) (posted (fst (sleepAndPost c env d ls ovs q)))"
    using postAndRetry_finite(1) [OF assms(1) q']
    by (simp add: sleepAndPost_def Let_def case_prod_beta)
  show "snd (sleepAndPost c env d ls ovs q) = Running st' \<Longrightarrow> finiteQueue (postQueue st')"
    using postAndRetry_finite(2) [OF assms(1) q']
    by (simp add: sleepAndPost_def Let_def case_prod_beta split: if_splits)
  show "finiteQueue (requeued (fst (sleepAndPost c env d ls ovs q)))"
    using postAndRetry_finite(3) [OF assms(1) q']
    by (simp add: sleepAndPost_def Let_def case_prod_beta finiteQueue_def)
qed

lemma sendCycle_finite:
  assumes "finiteQueue (v # rest)"
  shows "list_all (list_all finiteValue) (posted (fst (sendCycle c pd iv env ls v rest)))"
    and "snd (sendCycle c pd iv env ls v rest) = Running st' \<Longrightarrow> finiteQueue (postQueue st')"
    and "finiteQueue (requeued (fst (sendCycle c pd iv env ls v rest)))"
proof -
  let ?q1 = "rest @ map (enqueueResult c) (arrivedBeforeMerge env)"
  obtain ovs q where mn: "mergeNext v ?q1 = (ovs, q)" by force
  have "finiteQueue (v # ?q1)"
    using assms by (simp add: finiteQueue_def finiteQueue_arrivals [unfolded finiteQueue_def])
  from mergeNext_finite [OF this] have ovs: "finiteQueue ovs" and q: "finiteQueue q"
    by (simp_all add: mn)
  have q': "finiteQueue (q @ map (enqueueResult c) (arrivedBeforeNextState env))"
    using q by (simp add: finiteQueue_append finiteQueue_arrivals)
  show "list_all (list_all finiteValue) (posted (fst (sendCycle c pd iv env ls v rest)))"
    using sleepAndPost_finite(1) [OF ovs q']
    by (simp add: sendCycle_def mn Let_def case_prod_beta trace_simps split: option.split)
  show "snd (sendCycle c pd iv env ls v rest) = Running st' \<Longrightarrow> finiteQueue (postQueue st')"
    using sleepAndPost_finite(2) [OF ovs q']
    by (simp add: sendCycle_def mn Let_def case_prod_beta split: option.splits)
  show "finiteQueue (requeued (fst (sendCycle c pd iv env ls v rest)))"
    using sleepAndPost_finite(3) [OF ovs q']
    by (simp add: sendCycle_def mn Let_def case_prod_beta trace_simps finiteQueue_def
             split: option.split)
qed

lemma cycle_finite:
  assumes "finiteQueue (postQueue st)"
  shows "list_all (list_all finiteValue) (posted (fst (cycle c pd iv env st)))"
    and "snd (cycle c pd iv env st) = Running st' \<Longrightarrow> finiteQueue (postQueue st')"
    and "finiteQueue (requeued (fst (cycle c pd iv env st)))"
proof -
  let ?q0 = "postQueue st @ map (enqueueResult c) (arrivedBeforeSelect env)"
  have q0: "finiteQueue ?q0"
    using assms by (simp add: finiteQueue_append finiteQueue_arrivals)
  show "list_all (list_all finiteValue) (posted (fst (cycle c pd iv env st)))"
  proof (cases "termSelected env")
    case True
    then show ?thesis by (simp add: cycle_term)
  next
    case False
    show ?thesis
    proof (cases ?q0)
      case Nil
      with False show ?thesis by (simp add: cycle_blocked)
    next
      case (Cons v rest)
      with q0 have "finiteQueue (v # rest)" by simp
      from sendCycle_finite(1) [OF this] show ?thesis
        by (simp add: cycle_recv [OF False Cons])
    qed
  qed
  show "snd (cycle c pd iv env st) = Running st' \<Longrightarrow> finiteQueue (postQueue st')"
  proof (cases "termSelected env")
    case True
    assume "snd (cycle c pd iv env st) = Running st'"
    with True q0 show ?thesis by (auto simp: cycle_def Let_def split: if_splits)
  next
    case False
    assume run: "snd (cycle c pd iv env st) = Running st'"
    show ?thesis
    proof (cases ?q0)
      case Nil
      with False run show ?thesis by (auto simp: cycle_def Let_def finiteQueue_def)
    next
      case (Cons v rest)
      with q0 have "finiteQueue (v # rest)" by simp
      from sendCycle_finite(2) [OF this] run show ?thesis
        by (simp add: cycle_recv [OF False Cons])
    qed
  qed
  show "finiteQueue (requeued (fst (cycle c pd iv env st)))"
  proof (cases "termSelected env")
    case True
    then show ?thesis by (simp add: cycle_term finiteQueue_def)
  next
    case False
    show ?thesis
    proof (cases ?q0)
      case Nil
      with False show ?thesis by (simp add: cycle_blocked finiteQueue_def)
    next
      case (Cons v rest)
      with q0 have "finiteQueue (v # rest)" by simp
      from sendCycle_finite(3) [OF this] show ?thesis
        by (simp add: cycle_recv [OF False Cons])
    qed
  qed
qed

lemma deliver_finite:
  "finiteQueue inFlight
     \<Longrightarrow> finiteQueue (fst (deliver vs inFlight)) \<and> finiteQueue (snd (deliver vs inFlight))"
proof (induction vs arbitrary: inFlight)
  case Nil
  then show ?case by (simp add: finiteQueue_def)
next
  case (Cons v vs)
  have "finiteQueue (remove1 v inFlight)"
    using Cons.prems set_remove1_subset [of v inFlight]
    unfolding finiteQueue_def list_all_iff by blast
  from Cons.IH [OF this] Cons.IH [OF Cons.prems] Cons.prems show ?case
    by (auto simp: case_prod_beta finiteQueue_def list_all_iff)
qed

lemma cyclesFrom_finite:
  "finiteQueue (postQueue st) \<Longrightarrow> finiteQueue inFlight
     \<Longrightarrow> list_all (list_all finiteValue) (posted (fst (cyclesFrom c pd iv envs st inFlight)))"
proof (induction envs arbitrary: st inFlight)
  case Nil
  show ?case by simp
next
  case (Cons env envs)
  let ?st = "st\<lparr>postQueue := postQueue st @ fst (deliver (resent env) inFlight)\<rparr>"
  have st: "finiteQueue (postQueue ?st)"
    using Cons.prems deliver_finite [of inFlight "resent env"] by (simp add: finiteQueue_append)
  have fl: "finiteQueue (snd (deliver (resent env) inFlight) @ requeued (fst (cycle c pd iv env ?st)))"
    using Cons.prems(2) deliver_finite [of inFlight "resent env"] cycle_finite(3) [OF st, of c pd iv env]
    by (simp add: finiteQueue_append)
  show ?case
  proof (cases "snd (cycle c pd iv env ?st)")
    case (Running st')
    then have "finiteQueue (postQueue st')"
      using cycle_finite(2) [OF st] by blast
    from Cons.IH [OF this fl] cycle_finite(1) [OF st, of c pd iv env] Running
    show ?thesis
      by (simp add: pass_eq case_prod_beta trace_simps)
  next
    case (Returned e)
    with cycle_finite(1) [OF st, of c pd iv env] show ?thesis
      by (simp add: pass_eq)
  next
    case Panicked
    with cycle_finite(1) [OF st, of c pd iv env] show ?thesis
      by (simp add: pass_eq)
  qed
qed

lemma cycles_finite:
  "finiteQueue (postQueue st)
     \<Longrightarrow> list_all (list_all finiteValue) (posted (fst (cycles c pd iv envs st)))"
  unfolding cycles_def by (rule cyclesFrom_finite) (simp_all add: finiteQueue_def)

text \<open>
  C7. The post value that \<^verbatim>\<open>enqueueLoop\<close> makes of a result holds no value that is a NaN
  or an infinity; and in every run of \<^verbatim>\<open>loop\<close>, whose queue is filled by \<^verbatim>\<open>enqueueLoop\<close>
  and by the retry goroutine only, no request to \<^verbatim>\<open>PostMetricsValues\<close> holds such a value.
\<close>

theorem non_finite_values_never_posted:
  "(\<forall>m \<in> set (values' (enqueueResult c res)). \<not> IsNaN (Value m) \<and> \<not> IsInf (Value m))
   \<and> (\<forall>vals \<in> set (posted (fst (loop sha1_Sum interval c env))).
        \<forall>m \<in> set vals. \<not> IsNaN (Value m) \<and> \<not> IsInf (Value m))"
proof -
  have "list_all (list_all finiteValue)
          (posted (fst (cycles c pd interval (cycleEnvs env) \<lparr>lState = loopStateFirst, postQueue = []\<rparr>)))"
    for pd
    by (rule cycles_finite) (simp add: finiteQueue_def)
  then have "list_all (list_all finiteValue) (posted (fst (loop sha1_Sum interval c env)))"
    by (simp add: loop_def Let_def case_prod_beta split: option.split)
  then show ?thesis
    using enqueueResult_finite [of c res]
    by (simp add: list_all_iff finiteValue_def)
qed

lemmas float_defs = IsNaN_def IsInf_def exponentBits_def fractionBits_def

theorem non_finite_values_never_posted_witness:
  "IsNaN 0x7FF8000000000000 \<and> IsInf 0x7FF0000000000000 \<and> IsInf 0xFFF0000000000000
   \<and> enqueueResult exampleContext exampleResult = examplePostValue
   \<and> posted (fst (loop exampleDigest 60 exampleContext
        \<lparr>termDuringInitialWait = False,
         cycleEnvs = [quietEnv\<lparr>arrivedBeforeSelect := [exampleResult]\<rparr>]\<rparr>))
      = [values' examplePostValue]
   \<and> \<not> IsNaN 0x3FF0000000000000 \<and> \<not> IsInf 0x3FF0000000000000"
proof -
  let ?env = "\<lparr>termDuringInitialWait = False,
               cycleEnvs = [quietEnv\<lparr>arrivedBeforeSelect := [exampleResult]\<rparr>]\<rparr>"
  have enq: "enqueueResult exampleContext exampleResult = examplePostValue"
    by (simp add: enqueueResult_def newPostValue_def float_defs example_defs)
  have d: "delayByHost exampleDigest 60 (Host exampleContext) = Some 37"
    by (simp add: delayByHost_def go_rem_def sha1_Size_def example_defs)
  have run: "posted (fst (loop exampleDigest 60 exampleContext ?env)) = [values' examplePostValue]"
    by (simp add: loop_def d enq cycle_defs quietEnv_def examplePostValue_def)
  have nonfinite: "IsNaN 0x7FF8000000000000 \<and> IsInf 0x7FF0000000000000 \<and> IsInf 0xFFF0000000000000"
    by (simp add: float_defs)
  from non_finite_values_never_posted [of exampleContext exampleResult exampleDigest 60 ?env]
  have "\<forall>m \<in> set (values' examplePostValue). \<not> IsNaN (Value m) \<and> \<not> IsInf (Value m)"
    unfolding enq by (rule conjunct1)
  then have "\<not> IsNaN 0x3FF0000000000000 \<and> \<not> IsInf 0x3FF0000000000000"
    by (simp add: examplePostValue_def)
  with nonfinite enq run show ?thesis
    by (simp only: simp_thms)
qed

subsection \<open>The initial wait\<close>

text \<open>
  C9. With \<open>d\<close> the delay of the host, \<^verbatim>\<open>loop\<close> first waits \<open>d div 2\<close> seconds, which is
  less than \<open>d\<close> unless \<open>d\<close> is 0. A termination signal during this wait makes it return
  \<^verbatim>\<open>nil\<close> at once, with nothing else done; otherwise it initialises the plugin generators
  and enters the \<^verbatim>\<open>for\<close> loop in the state \<open>loopStateFirst\<close>.
\<close>

theorem loop_initial_wait_half_delay:
  assumes "delayByHost sha1_Sum interval (Host c) = Some d"
  shows "(termDuringInitialWait env \<longrightarrow>
            loop sha1_Sum interval c env = ([Sleep (d div 2)], Returned None))
       \<and> (\<not> termDuringInitialWait env \<longrightarrow>
            loop sha1_Sum interval c env =
              (Sleep (d div 2) # InitPluginGenerators
                 # fst (cycles c d interval (cycleEnvs env) \<lparr>lState = loopStateFirst, postQueue = []\<rparr>),
               snd (cycles c d interval (cycleEnvs env) \<lparr>lState = loopStateFirst, postQueue = []\<rparr>)))
       \<and> (0 < d \<longrightarrow> d div 2 < d)"
proof -
  have "0 \<le> d" using assms by (rule delayByHost_nonneg)
  then have "go_quot d 2 = d div 2" by (rule go_quot_nonneg_two)
  moreover have "0 < d \<longrightarrow> d div 2 < d" by arith
  ultimately show ?thesis
    using assms by (simp add: loop_def Let_def case_prod_beta)
qed

theorem loop_initial_wait_half_delay_witness:
  "delayByHost exampleDigest 60 (Host exampleContext) = Some 37
   \<and> loop exampleDigest 60 exampleContext \<lparr>termDuringInitialWait = True, cycleEnvs = [quietEnv]\<rparr>
       = ([Sleep 18], Returned None)
   \<and> loop exampleDigest 60 exampleContext \<lparr>termDuringInitialWait = False, cycleEnvs = []\<rparr>
       = ([Sleep 18, InitPluginGenerators], Running \<lparr>lState = loopStateFirst, postQueue = []\<rparr>)"
proof -
  have d: "delayByHost exampleDigest 60 (Host exampleContext) = Some 37"
    by (simp add: delayByHost_def go_rem_def sha1_Size_def example_defs)
  from loop_initial_wait_half_delay [OF d, of "\<lparr>termDuringInitialWait = True, cycleEnvs = [quietEnv]\<rparr>"]
       loop_initial_wait_half_delay [OF d, of "\<lparr>termDuringInitialWait = False, cycleEnvs = []\<rparr>"] d
  show ?thesis by (simp add: cycles_def)
qed

subsection \<open>Run\<close>

lemma statusUpdates_cycle: "statusUpdates (fst (cycle c pd iv env st)) = []"
  by (simp add: cycle_def Let_def statusUpdates_sendCycle split: list.split)

lemma statusUpdates_cyclesFrom: "statusUpdates (fst (cyclesFrom c pd iv envs st inFlight)) = []"
proof (induction envs arbitrary: st inFlight)
  case Nil
  show ?case by simp
next
  case (Cons env envs)
  show ?case
    using Cons.IH
    by (simp add: pass_eq case_prod_beta statusUpdates_append statusUpdates_cycle
             split: outcome.split)
qed

lemma statusUpdates_cycles: "statusUpdates (fst (cycles c pd iv envs st)) = []"
  by (simp add: cycles_def statusUpdates_cyclesFrom)

lemma statusUpdates_loop: "statusUpdates (fst (loop sha1_Sum interval c env)) = []"
  by (simp add: loop_def Let_def case_prod_beta statusUpdates_cycles split: option.split)

text \<open>
  C10. \<^verbatim>\<open>loop\<close> itself never sets the host status. \<^verbatim>\<open>Run\<close> sets it, once and to the
  configured status on stop, exactly when \<^verbatim>\<open>loop\<close> returned \<^verbatim>\<open>nil\<close> and that status is
  not empty. \<^verbatim>\<open>Run\<close> returns what \<^verbatim>\<open>loop\<close> returned; when that is not \<^verbatim>\<open>nil\<close>, as with
  the error of the forced return, \<^verbatim>\<open>Run\<close> does nothing more than \<^verbatim>\<open>loop\<close> did.
\<close>

theorem Run_on_stop_status_only_after_nil:
  "statusUpdates (fst (Run sha1_Sum interval c env))
     = (if snd (loop sha1_Sum interval c env) = Returned None \<and> OnStop (Config c) \<noteq> []
        then [(ID (Host c), OnStop (Config c))] else [])
   \<and> snd (Run sha1_Sum interval c env) = snd (loop sha1_Sum interval c env)
   \<and> (snd (loop sha1_Sum interval c env) \<noteq> Returned None \<longrightarrow>
        Run sha1_Sum interval c env = loop sha1_Sum interval c env)"
  using statusUpdates_loop [of sha1_Sum interval c env]
  by (cases "loop sha1_Sum interval c env")
     (simp add: Run_def statusUpdates_append split: outcome.split option.split)

theorem Run_on_stop_status_only_after_nil_witness:
  "loop exampleDigest 60 exampleContext
      \<lparr>termDuringInitialWait = False,
       cycleEnvs = [quietEnv\<lparr>arrivedBeforeSelect := [exampleResult], termSelected := True\<rparr>,
                    quietEnv\<lparr>termSelected := True\<rparr>]\<rparr>
     = ([Sleep 18, InitPluginGenerators], Returned (Some forceReturn))
   \<and> Run exampleDigest 60 exampleContext
      \<lparr>termDuringInitialWait = False,
       cycleEnvs = [quietEnv\<lparr>arrivedBeforeSelect := [exampleResult], termSelected := True\<rparr>,
                    quietEnv\<lparr>termSelected := True\<rparr>]\<rparr>
     = ([Sleep 18, InitPluginGenerators], Returned (Some forceReturn))
   \<and> Run exampleDigest 60 exampleContext
      \<lparr>termDuringInitialWait = False, cycleEnvs = [quietEnv\<lparr>termSelected := True\<rparr>]\<rparr>
     = ([Sleep 18, InitPluginGenerators, UpdateHostStatus ''abc'' ''poweroff''], Returned None)"
proof -
  let ?twice = "\<lparr>termDuringInitialWait = False,
       cycleEnvs = [quietEnv\<lparr>arrivedBeforeSelect := [exampleResult], termSelected := True\<rparr>,
                    quietEnv\<lparr>termSelected := True\<rparr>]\<rparr>"
  let ?once = "\<lparr>termDuringInitialWait = False, cycleEnvs = [quietEnv\<lparr>termSelected := True\<rparr>]\<rparr>"
  have d: "delayByHost exampleDigest 60 (Host exampleContext) = Some 37"
    by (simp add: delayByHost_def go_rem_def sha1_Size_def example_defs)
  have twice: "loop exampleDigest 60 exampleContext ?twice
      = ([Sleep 18, InitPluginGenerators], Returned (Some forceReturn))"
    by (simp add: loop_def d go_quot_def cycles_def pass_def cycle_def Let_def quietEnv_def)
  have drained: "loop exampleDigest 60 exampleContext ?once
      = ([Sleep 18, InitPluginGenerators], Returned None)"
    by (simp add: loop_def d go_quot_def cycles_def pass_def cycle_def Let_def quietEnv_def)
  have once: "Run exampleDigest 60 exampleContext ?once
      = ([Sleep 18, InitPluginGenerators, UpdateHostStatus ''abc'' ''poweroff''], Returned None)"
    unfolding Run_def drained by (simp add: exampleContext_def exampleConfig_def exampleHost_def)
  from Run_on_stop_status_only_after_nil [of exampleDigest 60 exampleContext ?twice] twice once
  show ?thesis by simp
qed

subsection \<open>The retries of prepareHost\<close>

lemma retryTrace_Suc:
  "0 < a \<Longrightarrow> call # Sleep iv # retryTrace iv call a = retryTrace iv call (Suc a)"
  by (cases a) simp_all

lemma retryPolicy_none: "retryPolicy n results 0"
  by (simp add: retryPolicy_def)

lemma retryPolicy_made:
  assumes "a \<le> n" and "\<forall>j<a - 1. isTransientError (results j)"
    and "a < n \<longrightarrow> \<not> isTransientError (results (a - 1))"
  shows "retryPolicy n results a"
  using assms by (auto simp: retryPolicy_def list_all_iff)

lemma retried_eq:
  "retried call results assign k vars =
     ([call],
      (case results k of
         Inl e \<Rightarrow> (assign None vars)\<lparr>lastErr := Some e\<rparr>
       | Inr x \<Rightarrow> (assign (Some x) vars)\<lparr>lastErr := None\<rparr>),
      (if isTransientError (results k)
       then (case results k of Inl e \<Rightarrow> Some e | Inr x \<Rightarrow> None) else None))"
proof (cases "results k")
  case (Inl e)
  then show ?thesis
    by (cases e) (simp_all add: retried_def filterErrorForRetry_def)
next
  case (Inr x)
  then show ?thesis
    by (simp add: retried_def filterErrorForRetry_def)
qed

lemma Retry_attempts:
  assumes "0 < n"
  shows "\<exists>a vars0. 0 < a \<and> a \<le> n
     \<and> Retry n iv (retried call results assign) k vars
         = (retryTrace iv call a,
            (case results (k + a - 1) of
               Inl e \<Rightarrow> (assign None vars0)\<lparr>lastErr := Some e\<rparr>
             | Inr x \<Rightarrow> (assign (Some x) vars0)\<lparr>lastErr := None\<rparr>))
     \<and> (\<forall>j<a - 1. isTransientError (results (k + j)))
     \<and> (a < n \<longrightarrow> \<not> isTransientError (results (k + a - 1)))"
  using assms
proof (induction n arbitrary: k vars)
  case 0
  then show ?case by simp
next
  case (Suc n)
  let ?vars' = "(case results k of
         Inl e \<Rightarrow> (assign None vars)\<lparr>lastErr := Some e\<rparr>
       | Inr x \<Rightarrow> (assign (Some x) vars)\<lparr>lastErr := None\<rparr>)"
  show ?case
  proof (cases "\<not> isTransientError (results k) \<or> n = 0")
    case True
    then have "Retry (Suc n) iv (retried call results assign) k vars = ([call], ?vars')"
      by (auto simp: retried_eq)
    with True show ?thesis
      by (intro exI [of _ 1] exI [of _ vars]) (auto simp del: Retry.simps)
  next
    case False
    then have tr: "isTransientError (results k)" and n: "0 < n" by simp_all
    from Suc.IH [OF n, of "Suc k" ?vars'] obtain a vars0 where a: "0 < a" "a \<le> n"
      and run: "Retry n iv (retried call results assign) (Suc k) ?vars'
         = (retryTrace iv call a,
            (case results (Suc k + a - 1) of
               Inl e \<Rightarrow> (assign None vars0)\<lparr>lastErr := Some e\<rparr>
             | Inr x \<Rightarrow> (assign (Some x) vars0)\<lparr>lastErr := None\<rparr>))"
      and before: "\<forall>j<a - 1. isTransientError (results (Suc k + j))"
      and last: "a < n \<longrightarrow> \<not> isTransientError (results (Suc k + a - 1))"
      by blast
    have err: "(case results k of Inl e \<Rightarrow> Some e | Inr x \<Rightarrow> None) \<noteq> None"
      using tr by (cases "results k") simp_all
    have eq: "Retry (Suc n) iv (retried call results assign) k vars
        = (call # Sleep iv # retryTrace iv call a,
           (case results (Suc k + a - 1) of
               Inl e \<Rightarrow> (assign None vars0)\<lparr>lastErr := Some e\<rparr>
             | Inr x \<Rightarrow> (assign (Some x) vars0)\<lparr>lastErr := None\<rparr>))"
      using n tr err by (simp add: retried_eq run)
    have idx: "k + Suc a - 1 = Suc k + a - 1" using a(1) by simp
    have before': "\<forall>j<Suc a - 1. isTransientError (results (k + j))"
    proof (intro allI impI)
      fix j assume j: "j < Suc a - 1"
      show "isTransientError (results (k + j))"
      proof (cases j)
        case 0
        with tr show ?thesis by simp
      next
        case (Suc j')
        with j have "j' < a - 1" by simp
        with before have "isTransientError (results (Suc k + j'))" by blast
        with Suc show ?thesis by simp
      qed
    qed
    show ?thesis
      using a last before'
      by (intro exI [of _ "Suc a"] exI [of _ vars0])
         (simp add: eq idx retryTrace_Suc del: Retry.simps retryTrace.simps)
  qed
qed

lemma doRetry_attempts:
  "\<exists>a vars0. 0 < a
     \<and> doRetry (retried call results assign) vars
         = (retryTrace retryInterval call a,
            (case results (a - 1) of
               Inl e \<Rightarrow> (assign None vars0)\<lparr>lastErr := Some e\<rparr>
             | Inr x \<Rightarrow> (assign (Some x) vars0)\<lparr>lastErr := None\<rparr>))
     \<and> retryPolicy retryNum results a"
proof -
  have "0 < retryNum" by (simp add: retryNum_def)
  from Retry_attempts [OF this, of retryInterval call results assign 0 vars]
  obtain a vars0 where "0 < a" "a \<le> retryNum"
    "Retry retryNum retryInterval (retried call results assign) 0 vars
         = (retryTrace retryInterval call a,
            (case results (a - 1) of
               Inl e \<Rightarrow> (assign None vars0)\<lparr>lastErr := Some e\<rparr>
             | Inr x \<Rightarrow> (assign (Some x) vars0)\<lparr>lastErr := None\<rparr>))"
    "\<forall>j<a - 1. isTransientError (results j)"
    "a < retryNum \<longrightarrow> \<not> isTransientError (results (a - 1))"
    by auto
  then show ?thesis
    by (intro exI [of _ a] exI [of _ vars0]) (simp add: doRetry_def retryPolicy_made)
qed


lemma doRetry_summary:
  "\<exists>a. 0 < a
     \<and> fst (doRetry (retried call results assign) vars) = retryTrace retryInterval call a
     \<and> lastErr (snd (doRetry (retried call results assign) vars))
         = (case results (a - 1) of Inl e \<Rightarrow> Some e | Inr x \<Rightarrow> None)
     \<and> retryPolicy retryNum results a"
proof -
  from doRetry_attempts [of call results assign vars] obtain a vars0 where a: "0 < a"
    and run: "doRetry (retried call results assign) vars
         = (retryTrace retryInterval call a,
            (case results (a - 1) of
               Inl e \<Rightarrow> (assign None vars0)\<lparr>lastErr := Some e\<rparr>
             | Inr x \<Rightarrow> (assign (Some x) vars0)\<lparr>lastErr := None\<rparr>))"
    and pol: "retryPolicy retryNum results a"
    by blast
  have "lastErr (snd (doRetry (retried call results assign) vars))
         = (case results (a - 1) of Inl e \<Rightarrow> Some e | Inr x \<Rightarrow> None)"
    unfolding run by (cases "results (a - 1)") simp_all
  with a pol show ?thesis
    by (intro exI [of _ a]) (simp add: run)
qed

lemma findByCustomIdentifier_summary:
  "\<exists>n0. fst (findByCustomIdentifier env ci vars)
            = retryTrace 2 (FindHostByCustomIdentifier ci) n0
      \<and> retryPolicy 3 (FindHostByCustomIdentifierResults env) n0
      \<and> (\<forall>e. 0 < n0 \<and> FindHostByCustomIdentifierResults env (n0 - 1) = Inl e
             \<longrightarrow> result (snd (findByCustomIdentifier env ci vars)) = None)"
proof (cases "ci = []")
  case True
  then show ?thesis
    by (intro exI [of _ 0]) (simp add: findByCustomIdentifier_def retryPolicy_none)
next
  case False
  have "0 < (3::nat)" by simp
  from Retry_attempts [OF this, of 2 "FindHostByCustomIdentifier ci"
         "FindHostByCustomIdentifierResults env" "\<lambda>x vars. vars\<lparr>result := x\<rparr>" 0 vars]
  obtain a vars0 where a: "0 < a" "a \<le> 3"
    and run: "Retry 3 2 (callFindHostByCustomIdentifier env ci) 0 vars
         = (retryTrace 2 (FindHostByCustomIdentifier ci) a,
            (case FindHostByCustomIdentifierResults env (a - 1) of
               Inl e \<Rightarrow> (vars0\<lparr>result := None\<rparr>)\<lparr>lastErr := Some e\<rparr>
             | Inr x \<Rightarrow> (vars0\<lparr>result := Some x\<rparr>)\<lparr>lastErr := None\<rparr>))"
    and before: "\<forall>j<a - 1. isTransientError (FindHostByCustomIdentifierResults env j)"
    and last: "a < 3 \<longrightarrow> \<not> isTransientError (FindHostByCustomIdentifierResults env (a - 1))"
    unfolding callFindHostByCustomIdentifier_def by auto
  have pol: "retryPolicy 3 (FindHostByCustomIdentifierResults env) a"
    using a(2) before last by (rule retryPolicy_made)
  have "fst (findByCustomIdentifier env ci vars) = retryTrace 2 (FindHostByCustomIdentifier ci) a"
    using False by (simp add: findByCustomIdentifier_def run del: retryTrace.simps)
  moreover have "FindHostByCustomIdentifierResults env (a - 1) = Inl e
      \<Longrightarrow> result (snd (findByCustomIdentifier env ci vars)) = None" for e
    using False by (simp add: findByCustomIdentifier_def run del: retryTrace.simps)
  ultimately show ?thesis
    using pol by (intro exI [of _ a]) blast
qed

lemma createHost_summary:
  assumes "createHost env hn ci vars = (acts, vars', err)"
  shows "\<exists>n1 n2 hid. 0 < n1
     \<and> acts = retryTrace retryInterval (CreateHost hn ci) n1
              @ retryTrace retryInterval (FindHost hid) n2
     \<and> retryPolicy retryNum (CreateHostResults env) n1
     \<and> retryPolicy retryNum (FindHostResults env) n2
     \<and> (\<forall>e. CreateHostResults env (n1 - 1) = Inl e
            \<longrightarrow> err = Some (Errorf (''Failed to register this host: '' @ errorString e)))
     \<and> (\<forall>e. 0 < n2 \<and> FindHostResults env (n2 - 1) = Inl e
            \<longrightarrow> err = Some (Errorf (''Failed to find this host on mackerel: '' @ errorString e)))"
proof -
  let ?r1 = "doRetry (callCreateHost env hn ci) vars"
  obtain n1 where n1: "0 < n1"
    and t1: "fst ?r1 = retryTrace retryInterval (CreateHost hn ci) n1"
    and e1: "lastErr (snd ?r1)
              = (case CreateHostResults env (n1 - 1) of Inl e \<Rightarrow> Some e | Inr x \<Rightarrow> None)"
    and p1: "retryPolicy retryNum (CreateHostResults env) n1"
    unfolding callCreateHost_def using doRetry_summary by blast
  let ?r2 = "doRetry (callFindHost env (hostID (snd ?r1))) (snd ?r1)"
  obtain n2 where n2: "0 < n2"
    and t2: "fst ?r2 = retryTrace retryInterval (FindHost (hostID (snd ?r1))) n2"
    and e2: "lastErr (snd ?r2)
              = (case FindHostResults env (n2 - 1) of Inl e \<Rightarrow> Some e | Inr x \<Rightarrow> None)"
    and p2: "retryPolicy retryNum (FindHostResults env) n2"
    unfolding callFindHost_def using doRetry_summary by blast
  show ?thesis
  proof (cases "CreateHostResults env (n1 - 1)")
    case (Inl e)
    then have "acts = fst ?r1"
      and "err = Some (Errorf (''Failed to register this host: '' @ errorString e))"
      using assms e1 by (auto simp: createHost_def case_prod_beta)
    then show ?thesis
      using n1 p1 Inl
      by (intro exI [of _ n1] exI [of _ 0] exI [of _ "[]"]) (simp add: t1 retryPolicy_none)
  next
    case (Inr i)
    then have "acts = fst ?r1 @ fst ?r2"
      and "err = (case FindHostResults env (n2 - 1) of
                    Inl e \<Rightarrow> Some (Errorf (''Failed to find this host on mackerel: '' @ errorString e))
                  | Inr x \<Rightarrow> None)"
      using assms e1 e2 by (auto simp: createHost_def case_prod_beta split: sum.splits)
    then show ?thesis
      using n1 p1 p2 Inr
      by (intro exI [of _ n1] exI [of _ n2] exI [of _ "hostID (snd ?r1)"]) (simp add: t1 t2)
  qed
qed

lemma checkHostID_summary:
  assumes "checkHostID env hid vars = (acts, vars', err)"
  shows "\<exists>n2. 0 < n2
     \<and> acts = retryTrace retryInterval (FindHost hid) n2
     \<and> retryPolicy retryNum (FindHostResults env) n2
     \<and> (\<forall>e. FindHostResults env (n2 - 1) = Inl e
            \<longrightarrow> (\<exists>prefix. err = Some (Errorf (prefix @ errorString e))))"
proof -
  let ?r = "doRetry (callFindHost env hid) (vars\<lparr>hostID := hid\<rparr>)"
  obtain n2 where n2: "0 < n2"
    and t: "fst ?r = retryTrace retryInterval (FindHost hid) n2"
    and e: "lastErr (snd ?r)
              = (case FindHostResults env (n2 - 1) of Inl e \<Rightarrow> Some e | Inr x \<Rightarrow> None)"
    and p: "retryPolicy retryNum (FindHostResults env) n2"
    unfolding callFindHost_def using doRetry_summary by blast
  have acts: "acts = fst ?r"
    using assms by (auto simp: checkHostID_def case_prod_beta)
  have "FindHostResults env (n2 - 1) = Inl e
      \<Longrightarrow> \<exists>prefix. err = Some (Errorf (prefix @ errorString e))" for e
    using assms e by (cases "HostIDFile env") (auto simp: checkHostID_def case_prod_beta)
  then show ?thesis
    using n2 p by (intro exI [of _ n2]) (auto simp: acts t)
qed

lemma registerOrCheck_summary:
  assumes "registerOrCheck env hn ci = (acts, vars', err)"
  shows "\<exists>n0 n1 n2 hid.
       acts = retryTrace 2 (FindHostByCustomIdentifier ci) n0
              @ retryTrace retryInterval (CreateHost hn ci) n1
              @ retryTrace retryInterval (FindHost hid) n2
     \<and> retryPolicy 3 (FindHostByCustomIdentifierResults env) n0
     \<and> retryPolicy retryNum (CreateHostResults env) n1
     \<and> retryPolicy retryNum (FindHostResults env) n2
     \<and> (\<forall>e. 0 < n0 \<and> FindHostByCustomIdentifierResults env (n0 - 1) = Inl e \<longrightarrow> 0 < n1)
     \<and> (\<forall>e. 0 < n1 \<and> CreateHostResults env (n1 - 1) = Inl e
            \<longrightarrow> err = Some (Errorf (''Failed to register this host: '' @ errorString e)))
     \<and> (\<forall>e. 0 < n2 \<and> FindHostResults env (n2 - 1) = Inl e
            \<longrightarrow> (\<exists>prefix. err = Some (Errorf (prefix @ errorString e))))"
proof (cases "LoadHostIDResult env")
  case (Inr hid)
  then have "checkHostID env hid \<lparr>result = None, hostID = [], lastErr = None\<rparr> = (acts, vars', err)"
    using assms by (simp add: registerOrCheck_def Let_def)
  from checkHostID_summary [OF this] obtain n2 where "0 < n2"
    "acts = retryTrace retryInterval (FindHost hid) n2"
    "retryPolicy retryNum (FindHostResults env) n2"
    "\<forall>e. FindHostResults env (n2 - 1) = Inl e
            \<longrightarrow> (\<exists>prefix. err = Some (Errorf (prefix @ errorString e)))"
    by blast
  then show ?thesis
    by (intro exI [of _ 0] exI [of _ n2] exI [of _ hid]) (simp add: retryPolicy_none)
next
  case (Inl loadErr)
  let ?f = "findByCustomIdentifier env ci \<lparr>result = None, hostID = [], lastErr = None\<rparr>"
  from findByCustomIdentifier_summary [of env ci "\<lparr>result = None, hostID = [], lastErr = None\<rparr>"]
  obtain n0 where t0: "fst ?f = retryTrace 2 (FindHostByCustomIdentifier ci) n0"
    and p0: "retryPolicy 3 (FindHostByCustomIdentifierResults env) n0"
    and none: "\<forall>e. 0 < n0 \<and> FindHostByCustomIdentifierResults env (n0 - 1) = Inl e
                 \<longrightarrow> result (snd ?f) = None"
    by blast
  show ?thesis
  proof (cases "result (snd ?f)")
    case (Some h)
    then have "acts = fst ?f"
      using assms Inl by (auto simp: registerOrCheck_def Let_def case_prod_beta)
    then show ?thesis
      using p0 none Some
      by (intro exI [of _ n0] exI [of _ 0] exI [of _ "[]"]) (auto simp: t0 retryPolicy_none)
  next
    case None
    obtain acts2 vars2 err2 where c: "createHost env hn ci (snd ?f) = (acts2, vars2, err2)"
      by (cases "createHost env hn ci (snd ?f)") auto
    have acts: "acts = fst ?f @ acts2" and err: "err = err2"
      using assms Inl None c by (auto simp: registerOrCheck_def Let_def case_prod_beta)
    from createHost_summary [OF c] obtain n1 n2 hid where "0 < n1"
      "acts2 = retryTrace retryInterval (CreateHost hn ci) n1
               @ retryTrace retryInterval (FindHost hid) n2"
      "retryPolicy retryNum (CreateHostResults env) n1"
      "retryPolicy retryNum (FindHostResults env) n2"
      "\<forall>e. CreateHostResults env (n1 - 1) = Inl e
            \<longrightarrow> err2 = Some (Errorf (''Failed to register this host: '' @ errorString e))"
      "\<forall>e. 0 < n2 \<and> FindHostResults env (n2 - 1) = Inl e
            \<longrightarrow> err2 = Some (Errorf (''Failed to find this host on mackerel: '' @ errorString e))"
      by blast
    then show ?thesis
      using p0
      by (intro exI [of _ n0] exI [of _ n1] exI [of _ n2] exI [of _ hid])
         (auto simp: acts err t0)
  qed
qed

lemma setStatusOnStart_summary:
  assumes "setStatusOnStart conf env h = (acts, err)"
  shows "\<exists>n3. acts = retryTrace retryInterval (UpdateHostStatus (ID h) (OnStart conf)) n3
     \<and> retryPolicy retryNum (UpdateHostStatusResults env) n3
     \<and> (\<forall>e. 0 < n3 \<and> UpdateHostStatusResults env (n3 - 1) = Inl e
            \<longrightarrow> err = Some (Errorf (''Failed to set default host status: '' @ OnStart conf
                                      @ '', '' @ errorString e)))"
proof (cases "OnStart conf \<noteq> [] \<and> OnStart conf \<noteq> Host.Status h")
  case False
  then have "acts = []"
    using assms by (auto simp: setStatusOnStart_def Let_def)
  then show ?thesis
    by (intro exI [of _ 0]) (simp add: retryPolicy_none)
next
  case True
  let ?r = "doRetry (callUpdateHostStatus env (ID h) (OnStart conf))
              \<lparr>result = Some h, hostID = ID h, lastErr = None\<rparr>"
  obtain n3 where n3: "0 < n3"
    and t: "fst ?r = retryTrace retryInterval (UpdateHostStatus (ID h) (OnStart conf)) n3"
    and e: "lastErr (snd ?r)
              = (case UpdateHostStatusResults env (n3 - 1) of Inl e \<Rightarrow> Some e | Inr x \<Rightarrow> None)"
    and p: "retryPolicy retryNum (UpdateHostStatusResults env) n3"
    unfolding callUpdateHostStatus_def using doRetry_summary by blast
  have acts: "acts = fst ?r"
    and err: "err = (case lastErr (snd ?r) of
                       Some e \<Rightarrow> Some (Errorf (''Failed to set default host status: '' @ OnStart conf
                                                @ '', '' @ errorString e))
                     | None \<Rightarrow> None)"
    using assms True by (auto simp: setStatusOnStart_def Let_def case_prod_beta)
  show ?thesis
    using p e by (intro exI [of _ n3]) (auto simp: acts err t)
qed


lemma prepareHost_Failed:
  assumes "prepareHost conf env = (acts, r)"
    and "collectHostSpecsResult env = Inr (hn, ci)"
    and "registerOrCheck env hn ci = (acts1, vars1, Some err)"
  shows "acts = acts1" and "r = Failed err"
  using assms by (simp_all add: prepareHost_def)

lemma prepareHost_nil:
  assumes "prepareHost conf env = (acts, r)"
    and "collectHostSpecsResult env = Inr (hn, ci)"
    and "registerOrCheck env hn ci = (acts1, vars1, None)"
    and "result vars1 = None"
  shows "acts = acts1" and "r = NilDereference"
  using assms by (simp_all add: prepareHost_def)

lemma prepareHost_status_Failed:
  assumes "prepareHost conf env = (acts, r)"
    and "collectHostSpecsResult env = Inr (hn, ci)"
    and "registerOrCheck env hn ci = (acts1, vars1, None)"
    and "result vars1 = Some h"
    and "setStatusOnStart conf env h = (acts2, Some err)"
  shows "acts = acts1 @ acts2" and "r = Failed err"
  using assms by (simp_all add: prepareHost_def)

lemma prepareHost_saved:
  assumes "prepareHost conf env = (acts, r)"
    and "collectHostSpecsResult env = Inr (hn, ci)"
    and "registerOrCheck env hn ci = (acts1, vars1, None)"
    and "result vars1 = Some h"
    and "setStatusOnStart conf env h = (acts2, None)"
  shows "acts = acts1 @ acts2 @ [SaveHostID (ID h)]"
  using assms by (simp add: prepareHost_def)

text \<open>
  C8, as the claim states it, fails for the lookup by custom identifier: with no saved host
  id, when each of the three calls of \<^verbatim>\<open>FindHostByCustomIdentifier\<close> fails, \<^verbatim>\<open>prepareHost\<close>
  goes on to create the host and returns it, with no error.
\<close>

theorem custom_identifier_lookup_not_fatal:
  "FindHostByCustomIdentifierResults lookupFailsEnv 0 = Inl (TransientError ''timeout'')
   \<and> FindHostByCustomIdentifierResults lookupFailsEnv 1 = Inl (TransientError ''timeout'')
   \<and> FindHostByCustomIdentifierResults lookupFailsEnv 2 = Inl (TransientError ''timeout'')
   \<and> prepareHost exampleConfig lookupFailsEnv
       = ([FindHostByCustomIdentifier ''ci-1'', Sleep 2, FindHostByCustomIdentifier ''ci-1'', Sleep 2,
           FindHostByCustomIdentifier ''ci-1'', CreateHost ''web1'' ''ci-1'', FindHost ''abc'',
           SaveHostID ''abc''],
          Prepared exampleHost)"
  by (simp add: prepareHost_def registerOrCheck_def findByCustomIdentifier_def createHost_def
        setStatusOnStart_def doRetry_def retryNum_def retryInterval_def retried_def
        callFindHostByCustomIdentifier_def callCreateHost_def callFindHost_def
        filterErrorForRetry_def lookupFailsEnv_def exampleConfig_def exampleHost_def
        eval_nat_numeral Let_def)

text \<open>
  C8, amended. In every run of \<^verbatim>\<open>prepareHost\<close>, what it does is: the calls of
  \<^verbatim>\<open>FindHostByCustomIdentifier\<close>, then those of \<^verbatim>\<open>CreateHost\<close>, of \<^verbatim>\<open>FindHost\<close> and of
  \<^verbatim>\<open>UpdateHostStatus\<close>, each operation called \<open>n0\<close>, \<open>n1\<close>, \<open>n2\<close> and \<open>n3\<close> times (maybe not
  at all) with a sleep of its interval between two calls, then maybe the host id is saved.
  The calls of each operation follow the bounded retry policy: no more than 3 calls of the
  lookup and \<open>retryNum\<close> calls of the others; every call but the last failed with a
  transient error, so that a call that fails with a client error is the last; and the
  calls end before the attempt count only when the last did not fail with a transient
  error. When the last call of \<^verbatim>\<open>CreateHost\<close>, of \<^verbatim>\<open>FindHost\<close> or of \<^verbatim>\<open>UpdateHostStatus\<close>
  failed, \<^verbatim>\<open>prepareHost\<close> returns an error whose message ends with the message of that
  failure. When the last call of \<^verbatim>\<open>FindHostByCustomIdentifier\<close> failed, \<^verbatim>\<open>prepareHost\<close>
  goes on to call \<^verbatim>\<open>CreateHost\<close>.
\<close>

theorem prepareHost_retry_and_fatal_errors:
  assumes "prepareHost conf env = (acts, r)"
  shows "\<exists>n0 n1 n2 n3 hostname customIdentifier hid hid' saved.
       acts = retryTrace 2 (FindHostByCustomIdentifier customIdentifier) n0
              @ retryTrace retryInterval (CreateHost hostname customIdentifier) n1
              @ retryTrace retryInterval (FindHost hid) n2
              @ retryTrace retryInterval (UpdateHostStatus hid' (OnStart conf)) n3
              @ saved
     \<and> (saved = [] \<or> saved = [SaveHostID hid'])
     \<and> retryPolicy 3 (FindHostByCustomIdentifierResults env) n0
     \<and> retryPolicy retryNum (CreateHostResults env) n1
     \<and> retryPolicy retryNum (FindHostResults env) n2
     \<and> retryPolicy retryNum (UpdateHostStatusResults env) n3
     \<and> (\<forall>e. 0 < n0 \<and> FindHostByCustomIdentifierResults env (n0 - 1) = Inl e \<longrightarrow> 0 < n1)
     \<and> (\<forall>e. 0 < n1 \<and> CreateHostResults env (n1 - 1) = Inl e
            \<longrightarrow> r = Failed (Errorf (''Failed to register this host: '' @ errorString e)))
     \<and> (\<forall>e. 0 < n2 \<and> FindHostResults env (n2 - 1) = Inl e
            \<longrightarrow> (\<exists>prefix. r = Failed (Errorf (prefix @ errorString e))))
     \<and> (\<forall>e. 0 < n3 \<and> UpdateHostStatusResults env (n3 - 1) = Inl e
            \<longrightarrow> r = Failed (Errorf (''Failed to set default host status: '' @ OnStart conf
                                      @ '', '' @ errorString e)))"
proof (cases "collectHostSpecsResult env")
  case (Inl specErr)
  then have "acts = []"
    using assms by (auto simp: prepareHost_def)
  then show ?thesis
    by (intro exI [of _ 0] exI [of _ "[]"]) (simp add: retryPolicy_none)
next
  case (Inr specs)
  obtain hn ci where specs: "collectHostSpecsResult env = Inr (hn, ci)"
    using Inr by (cases specs) auto
  obtain acts1 vars1 err1 where reg: "registerOrCheck env hn ci = (acts1, vars1, err1)"
    by (cases "registerOrCheck env hn ci") auto
  from registerOrCheck_summary [OF reg] obtain n0 n1 n2 hid where
    a1: "acts1 = retryTrace 2 (FindHostByCustomIdentifier ci) n0
              @ retryTrace retryInterval (CreateHost hn ci) n1
              @ retryTrace retryInterval (FindHost hid) n2"
    and p0: "retryPolicy 3 (FindHostByCustomIdentifierResults env) n0"
    and p1: "retryPolicy retryNum (CreateHostResults env) n1"
    and p2: "retryPolicy retryNum (FindHostResults env) n2"
    and lookup: "\<forall>e. 0 < n0 \<and> FindHostByCustomIdentifierResults env (n0 - 1) = Inl e \<longrightarrow> 0 < n1"
    and f1: "\<forall>e. 0 < n1 \<and> CreateHostResults env (n1 - 1) = Inl e
            \<longrightarrow> err1 = Some (Errorf (''Failed to register this host: '' @ errorString e))"
    and f2: "\<forall>e. 0 < n2 \<and> FindHostResults env (n2 - 1) = Inl e
            \<longrightarrow> (\<exists>prefix. err1 = Some (Errorf (prefix @ errorString e)))"
    by blast
  have failed1: "r = Failed err" if "err1 = Some err" for err
    using prepareHost_Failed(2) [OF assms specs] reg that by simp
  have F1: "\<forall>e. 0 < n1 \<and> CreateHostResults env (n1 - 1) = Inl e
            \<longrightarrow> r = Failed (Errorf (''Failed to register this host: '' @ errorString e))"
    using f1 failed1 by blast
  have F2: "\<forall>e. 0 < n2 \<and> FindHostResults env (n2 - 1) = Inl e
            \<longrightarrow> (\<exists>prefix. r = Failed (Errorf (prefix @ errorString e)))"
    using f2 failed1 by blast
  have p3none: "retryPolicy retryNum (UpdateHostStatusResults env) 0"
    by (rule retryPolicy_none)
  have F3none: "\<forall>e. 0 < (0::nat) \<and> UpdateHostStatusResults env (0 - 1) = Inl e
            \<longrightarrow> r = Failed (Errorf (''Failed to set default host status: '' @ OnStart conf
                                      @ '', '' @ errorString e))"
    by simp
  have onlyReg: ?thesis if acts: "acts = acts1"
  proof -
    have eq: "acts = retryTrace 2 (FindHostByCustomIdentifier ci) n0
              @ retryTrace retryInterval (CreateHost hn ci) n1
              @ retryTrace retryInterval (FindHost hid) n2
              @ retryTrace retryInterval (UpdateHostStatus [] (OnStart conf)) 0
              @ []"
      using acts a1 by simp
    have sv: "([]::action list) = [] \<or> [] = [SaveHostID []]" by simp
    from eq sv p0 p1 p2 p3none lookup F1 F2 F3none show ?thesis
      by (intro exI conjI)
  qed
  show ?thesis
  proof (cases err1)
    case (Some err)
    from prepareHost_Failed(1) [OF assms specs reg [unfolded Some]] show ?thesis
      by (rule onlyReg)
  next
    case None
    show ?thesis
    proof (cases "result vars1")
      case nil: None
      from prepareHost_nil(1) [OF assms specs reg [unfolded None] nil] show ?thesis
        by (rule onlyReg)
    next
      case (Some h)
      obtain acts2 err2 where st: "setStatusOnStart conf env h = (acts2, err2)"
        by (cases "setStatusOnStart conf env h") auto
      from setStatusOnStart_summary [OF st] obtain n3 where
        a2: "acts2 = retryTrace retryInterval (UpdateHostStatus (ID h) (OnStart conf)) n3"
        and p3: "retryPolicy retryNum (UpdateHostStatusResults env) n3"
        and f3: "\<forall>e. 0 < n3 \<and> UpdateHostStatusResults env (n3 - 1) = Inl e
            \<longrightarrow> err2 = Some (Errorf (''Failed to set default host status: '' @ OnStart conf
                                      @ '', '' @ errorString e))"
        by blast
      have failed2: "r = Failed err" if "err2 = Some err" for err
        using prepareHost_status_Failed(2) [OF assms specs reg [unfolded None] Some] st that
        by simp
      have F3: "\<forall>e. 0 < n3 \<and> UpdateHostStatusResults env (n3 - 1) = Inl e
            \<longrightarrow> r = Failed (Errorf (''Failed to set default host status: '' @ OnStart conf
                                      @ '', '' @ errorString e))"
        using f3 failed2 by blast
      obtain saved where eq: "acts = retryTrace 2 (FindHostByCustomIdentifier ci) n0
              @ retryTrace retryInterval (CreateHost hn ci) n1
              @ retryTrace retryInterval (FindHost hid) n2
              @ retryTrace retryInterval (UpdateHostStatus (ID h) (OnStart conf)) n3
              @ saved"
        and sv: "saved = [] \<or> saved = [SaveHostID (ID h)]"
      proof (cases err2)
        case failed: (Some err)
        from prepareHost_status_Failed(1) [OF assms specs reg [unfolded None] Some st [unfolded failed]]
        have "acts = acts1 @ acts2 @ []" by simp
        then show ?thesis using that [of "[]"] by (simp add: a1 a2)
      next
        case ok: None
        from prepareHost_saved [OF assms specs reg [unfolded None] Some st [unfolded ok]]
        show ?thesis using that [of "[SaveHostID (ID h)]"] by (simp add: a1 a2)
      qed
      from eq sv p0 p1 p2 p3 lookup F1 F2 F3 show ?thesis
        by (intro exI conjI)
    qed
  qed
qed


theorem prepareHost_retry_and_fatal_errors_witness:
  "prepareHost exampleConfig serverDownEnv
     = (retryTrace retryInterval (FindHost ''abc'') 20,
        Failed (Errorf ''Failed to find this host on mackerel: timeout''))
   \<and> FindHostResults serverDownEnv 19 = Inl (TransientError ''timeout'')
   \<and> prepareHost exampleConfig
        (serverDownEnv\<lparr>FindHostResults := (\<lambda>k. Inl (ClientError ''401''))\<rparr>)
     = (retryTrace retryInterval (FindHost ''abc'') 1,
        Failed (Errorf ''Failed to find this host on mackerel: 401''))"
proof -
  have down: "prepareHost exampleConfig serverDownEnv
     = (retryTrace retryInterval (FindHost ''abc'') 20,
        Failed (Errorf ''Failed to find this host on mackerel: timeout''))"
    by (simp add: prepareHost_def registerOrCheck_def checkHostID_def doRetry_def retryNum_def
          retryInterval_def retried_def callFindHost_def filterErrorForRetry_def
          serverDownEnv_def eval_nat_numeral Let_def)
  have last: "FindHostResults serverDownEnv 19 = Inl (TransientError ''timeout'')"
    by (simp add: serverDownEnv_def)
  have refused: "prepareHost exampleConfig
        (serverDownEnv\<lparr>FindHostResults := (\<lambda>k. Inl (ClientError ''401''))\<rparr>)
     = (retryTrace retryInterval (FindHost ''abc'') 1,
        Failed (Errorf ''Failed to find this host on mackerel: 401''))"
    by (simp add: prepareHost_def registerOrCheck_def checkHostID_def doRetry_def retryNum_def
          retryInterval_def retried_def callFindHost_def filterErrorForRetry_def
          serverDownEnv_def eval_nat_numeral Let_def)
  from prepareHost_retry_and_fatal_errors [OF down] prepareHost_retry_and_fatal_errors [OF refused]
       down last refused
  show ?thesis
    by - (intro conjI; assumption)
qed

end
